theory Spec2Isabelle
  imports Main "HOL-Library.Char_ord" "HOL-Library.List_Lexorder" "HOL-Library.Multiset"
    "HOL-Library.AList"
begin

section \<open>Python strings\<close>

text \<open>
  A Python \<open>str\<close> is modelled as a \<open>string\<close>: a list of characters, each character a
  code point below 256 (the Latin-1 range). The string methods the program calls are
  written out for that range: which characters \<open>strip\<close> and \<open>split\<close> treat as white space,
  which characters \<open>splitlines\<close> treats as line boundaries, and what \<open>lower\<close> maps.
\<close>

definition is_space :: "char \<Rightarrow> bool" where
  \<comment> \<open>\<open>str.isspace\<close>: TAB..CR, FS..US, space, NEL, NBSP\<close>
  "is_space c =
     (let n = (of_char c :: nat)
      in (9 \<le> n \<and> n \<le> 13) \<or> (28 \<le> n \<and> n \<le> 32) \<or> n = 133 \<or> n = 160)"

definition is_linebreak :: "char \<Rightarrow> bool" where
  \<comment> \<open>the line boundaries of \<open>str.splitlines\<close>: LF, VT, FF, CR, FS, GS, RS, NEL\<close>
  "is_linebreak c =
     (let n = (of_char c :: nat)
      in (10 \<le> n \<and> n \<le> 13) \<or> (28 \<le> n \<and> n \<le> 30) \<or> n = 133)"

definition strip :: "string \<Rightarrow> string" where
  "strip s = rev (dropWhile is_space (rev (dropWhile is_space s)))"

definition startswith :: "string \<Rightarrow> string \<Rightarrow> bool" where
  "startswith s p = (take (length p) s = p)"

definition endswith :: "string \<Rightarrow> string \<Rightarrow> bool" where
  "endswith s p = startswith (rev s) (rev p)"

fun contains :: "string \<Rightarrow> string \<Rightarrow> bool" where
  \<comment> \<open>\<open>sub in s\<close>\<close>
  "contains [] sub = (sub = [])"
| "contains (c # cs) sub = (startswith (c # cs) sub \<or> contains cs sub)"

fun splitlines_go :: "bool \<Rightarrow> string \<Rightarrow> string \<Rightarrow> string list" where
  \<comment> \<open>\<open>after_cr\<close>: the previous character was a CR, so an LF here belongs to the same
      boundary; \<open>cur\<close>: the line read so far\<close>
  "splitlines_go after_cr cur [] = (if cur = [] then [] else [cur])"
| "splitlines_go after_cr cur (c # cs) =
     (if c = CHR 0x0A \<and> after_cr then splitlines_go False cur cs
      else if is_linebreak c then cur # splitlines_go (c = CHR 0x0D) [] cs
      else splitlines_go False (cur @ [c]) cs)"

definition splitlines :: "string \<Rightarrow> string list" where
  "splitlines s = splitlines_go False [] s"

fun split_go :: "string \<Rightarrow> string \<Rightarrow> string list" where
  "split_go cur [] = (if cur = [] then [] else [cur])"
| "split_go cur (c # cs) =
     (if is_space c then (if cur = [] then split_go [] cs else cur # split_go [] cs)
      else split_go (cur @ [c]) cs)"

definition split_ws :: "string \<Rightarrow> string list" where
  \<comment> \<open>\<open>s.split()\<close>: the maximal runs of non-space characters\<close>
  "split_ws s = split_go [] s"

fun split_on :: "char \<Rightarrow> string \<Rightarrow> string list" where
  \<comment> \<open>\<open>s.split(sep)\<close> for a one-character separator\<close>
  "split_on sep [] = [[]]"
| "split_on sep (c # cs) =
     (if c = sep then [] # split_on sep cs
      else (case split_on sep cs of [] \<Rightarrow> [[c]] | x # xs \<Rightarrow> (c # x) # xs))"

fun join :: "string \<Rightarrow> string list \<Rightarrow> string" where
  \<comment> \<open>\<open>sep.join(xs)\<close>\<close>
  "join sep [] = []"
| "join sep [x] = x"
| "join sep (x # y # ys) = x @ sep @ join sep (y # ys)"

definition str_partition :: "char \<Rightarrow> string \<Rightarrow> string \<times> string \<times> string" where
  \<comment> \<open>\<open>s.partition(sep)\<close> for a one-character separator\<close>
  "str_partition sep s =
     (if sep \<in> set s
      then (takeWhile (\<lambda>c. c \<noteq> sep) s, [sep], tl (dropWhile (\<lambda>c. c \<noteq> sep) s))
      else (s, [], []))"

definition lower_char :: "char \<Rightarrow> char" where
  "lower_char c =
     (let n = (of_char c :: nat)
      in if (65 \<le> n \<and> n \<le> 90) \<or> (192 \<le> n \<and> n \<le> 222 \<and> n \<noteq> 215)
         then char_of (n + 32) else c)"

definition lower :: "string \<Rightarrow> string" where
  "lower s = map lower_char s"

definition replace_char :: "char \<Rightarrow> char \<Rightarrow> string \<Rightarrow> string" where
  \<comment> \<open>\<open>s.replace(a, b)\<close> for one-character \<open>a\<close> and \<open>b\<close>\<close>
  "replace_char a b s = map (\<lambda>c. if c = a then b else c) s"

definition dict_get :: "(string \<rightharpoonup> string) \<Rightarrow> string \<Rightarrow> string \<Rightarrow> string" where
  \<comment> \<open>\<open>d.get(k, default)\<close>\<close>
  "dict_get d k dflt = (case d k of None \<Rightarrow> dflt | Some v \<Rightarrow> v)"

section \<open>The entry and its codec (desktop\_file.py)\<close>

record DesktopEntry =
  name :: string
  exec :: string
  entry_type :: string
  comment :: string
  icon :: string
  path :: string
  terminal :: bool
  categories :: string
  keywords' :: string
  url :: string
  mime_type :: string
  hidden :: bool
  env_vars :: string
  startup_wm_class :: string
  file_path :: "string option"

definition scan_line :: "bool \<times> (string \<rightharpoonup> string) \<Rightarrow> string \<Rightarrow> bool \<times> (string \<rightharpoonup> string)" where
  \<comment> \<open>one round of the loop of \<open>from_string\<close>; the state is \<open>(in_desktop_entry, data)\<close>\<close>
  "scan_line st raw =
     (let in_desktop_entry = fst st; data = snd st; line = strip raw
      in if line = [] \<or> startswith line ''#'' then st
         else if startswith line ''['' \<and> endswith line '']''
           then (line = ''[Desktop Entry]'', data)
         else if in_desktop_entry \<and> CHR ''='' \<in> set line
           then (case str_partition (CHR ''='') line of
                   (key, _, val) \<Rightarrow> (in_desktop_entry, data(strip key \<mapsto> strip val)))
         else st)"

definition parse_data :: "string \<Rightarrow> (string \<rightharpoonup> string)" where
  \<comment> \<open>the dictionary \<open>data\<close> after the loop over \<open>content.splitlines()\<close>\<close>
  "parse_data content = snd (foldl scan_line (False, Map.empty) (splitlines content))"

fun cmd_start :: "string list \<Rightarrow> nat \<Rightarrow> nat" where
  \<comment> \<open>the loop that looks for the first part without \<open>=\<close>, from index \<open>i\<close>;
      \<open>cmd_start_idx\<close> stays 0 when the loop ends without a \<open>break\<close>\<close>
  "cmd_start [] i = 0"
| "cmd_start (part # parts) i =
     (if CHR ''='' \<notin> set part then i else cmd_start parts (Suc i))"

definition unwrap_exec :: "string \<Rightarrow> string \<Rightarrow> string" where
  \<comment> \<open>strip the env prefix from Exec if X-Env-Vars is set\<close>
  "unwrap_exec env exec_cmd =
     (if env \<noteq> [] \<and> startswith exec_cmd ''env ''
      then (let after_env = drop 4 exec_cmd;
                parts = split_ws after_env;
                cmd_start_idx = cmd_start parts 0
            in join '' '' (drop cmd_start_idx parts))
      else exec_cmd)"

definition from_string :: "string \<Rightarrow> string option \<Rightarrow> DesktopEntry" where
  "from_string content fp =
     (let data = parse_data content;
          env = dict_get data ''X-Env-Vars'' [];
          exec_cmd = unwrap_exec env (dict_get data ''Exec'' [])
      in \<lparr> name = dict_get data ''Name'' ''Unnamed'',
           exec = exec_cmd,
           entry_type = dict_get data ''Type'' ''Application'',
           comment = dict_get data ''Comment'' [],
           icon = dict_get data ''Icon'' [],
           path = dict_get data ''Path'' [],
           terminal = (lower (dict_get data ''Terminal'' []) = ''true''),
           categories = dict_get data ''Categories'' [],
           keywords' = dict_get data ''Keywords'' [],
           url = dict_get data ''URL'' [],
           mime_type = dict_get data ''MimeType'' [],
           hidden = (lower (dict_get data ''Hidden'' []) = ''true''),
           env_vars = env,
           startup_wm_class = dict_get data ''StartupWMClass'' [],
           file_path = fp \<rparr>)"

definition env_parts :: "string \<Rightarrow> string list" where
  \<comment> \<open>\<open>[p.strip() for p in env_vars.split(";") if p.strip()]\<close>\<close>
  "env_parts env = map strip (filter (\<lambda>p. strip p \<noteq> []) (split_on (CHR '';'') env))"

definition bool_str :: "bool \<Rightarrow> string" where
  "bool_str b = (if b then ''true'' else ''false'')"

definition to_lines :: "DesktopEntry \<Rightarrow> string list" where
  \<comment> \<open>the list \<open>lines\<close> of \<open>to_string\<close>, append by append\<close>
  "to_lines e =
     (let lines = [''[Desktop Entry]''];
          lines = lines @ [''Type='' @ entry_type e];
          lines = lines @ [''Name='' @ name e];
          lines = (if comment e \<noteq> [] then lines @ [''Comment='' @ comment e] else lines);
          lines = (if icon e \<noteq> [] then lines @ [''Icon='' @ icon e] else lines);
          lines =
            (if exec e \<noteq> [] then
               (if env_vars e \<noteq> [] then
                  (if env_parts (env_vars e) \<noteq> []
                   then lines @ [''Exec=env '' @ join '' '' (env_parts (env_vars e)) @ '' '' @ exec e]
                   else lines @ [''Exec='' @ exec e])
                else lines @ [''Exec='' @ exec e])
             else lines);
          lines = (if path e \<noteq> [] then lines @ [''Path='' @ path e] else lines);
          lines = lines @ [''Terminal='' @ bool_str (terminal e)];
          lines = (if categories e \<noteq> [] then lines @ [''Categories='' @ categories e] else lines);
          lines = (if keywords' e \<noteq> [] then lines @ [''Keywords='' @ keywords' e] else lines);
          lines = (if url e \<noteq> [] then lines @ [''URL='' @ url e] else lines);
          lines = (if mime_type e \<noteq> [] then lines @ [''MimeType='' @ mime_type e] else lines);
          lines =
            (if startup_wm_class e \<noteq> []
             then lines @ [''StartupWMClass='' @ startup_wm_class e] else lines);
          lines = lines @ [''Hidden='' @ bool_str (hidden e)];
          lines = (if env_vars e \<noteq> [] then lines @ [''X-Env-Vars='' @ env_vars e] else lines)
      in lines)"

definition to_string :: "DesktopEntry \<Rightarrow> string" where
  "to_string e = join ''\<newline>'' (to_lines e) @ ''\<newline>''"

section \<open>Paths and the file system (pathlib)\<close>

text \<open>
  A \<open>pathlib\<close> path is its root (empty for a relative path) and its parts. The file
  system is an association list from paths to nodes, in the order in which the
  operating system lists them (the order \<open>glob\<close> yields them in), together with three
  sets of paths that stand for the permissions: the paths at which the operating
  system refuses to create, write or remove (\<open>denied\<close>), the directories the process
  may not search (\<open>unsearchable\<close>: resolving a path through one of them fails), and
  the directories it may not list (\<open>unreadable\<close>). A file node holds the text
  stored in the file, or the error that reading the file raises. Texts and paths are
  encoded as UTF-8, which encodes every character of the strings modelled here; the
  limits on the length of a name and of a path are those of Linux. An operation that
  raises returns the error alone: the file system left behind by a failed call is
  not modelled.
\<close>

datatype Path = Path (path_root: string) (path_parts: "string list")

definition parse_path :: "string \<Rightarrow> Path" where
  \<comment> \<open>\<open>Path(s)\<close> on POSIX: empty and \<open>.\<close> components are dropped\<close>
  "parse_path s =
     Path (if take 1 s \<noteq> ''/'' then []
           else if take 1 (drop 1 s) \<noteq> ''/'' \<or> take 1 (drop 2 s) = ''/'' then ''/''
           else ''//'')
          (filter (\<lambda>x. x \<noteq> [] \<and> x \<noteq> ''.'') (split_on (CHR ''/'') s))"

definition str_path :: "Path \<Rightarrow> string" where
  \<comment> \<open>\<open>str(path)\<close>\<close>
  "str_path p =
     (if path_root p = [] \<and> path_parts p = [] then ''.''
      else path_root p @ join ''/'' (path_parts p))"

definition path_join :: "Path \<Rightarrow> string \<Rightarrow> Path" where
  \<comment> \<open>\<open>p / s\<close>: an absolute segment replaces the path\<close>
  "path_join p s =
     (let q = parse_path s
      in if path_root q \<noteq> [] then q else Path (path_root p) (path_parts p @ path_parts q))"

definition path_name :: "Path \<Rightarrow> string" where
  \<comment> \<open>\<open>path.name\<close>\<close>
  "path_name p = (if path_parts p = [] then [] else last (path_parts p))"

definition path_parent :: "Path \<Rightarrow> Path" where
  \<comment> \<open>\<open>path.parent\<close>\<close>
  "path_parent p = Path (path_root p) (butlast (path_parts p))"

datatype os_error =
  FileNotFoundError | FileExistsError | NotADirectoryError | IsADirectoryError
  | PermissionError | UnicodeDecodeError
  | ValueError \<comment> \<open>a path with an embedded null byte\<close>
  | OSError_ENAMETOOLONG \<comment> \<open>\<open>OSError\<close> with \<open>errno\<close> \<open>ENAMETOOLONG\<close>\<close>

datatype node = Dir | File "os_error + string"

record filesystem =
  nodes :: "(Path \<times> node) list"
  denied :: "Path set"
  unsearchable :: "Path set"
  unreadable :: "Path set"

definition encoded_length :: "string \<Rightarrow> nat" where
  \<comment> \<open>the number of bytes of the UTF-8 encoding: two for a character from 128 on\<close>
  "encoded_length s = length s + length (filter (\<lambda>c. 128 \<le> (of_char c :: nat)) s)"

definition NAME_MAX :: nat where
  "NAME_MAX = 255"

definition PATH_MAX :: nat where
  "PATH_MAX = 4096"

fun walk :: "filesystem \<Rightarrow> string \<Rightarrow> string list \<Rightarrow> string list \<Rightarrow> os_error option" where
  \<comment> \<open>the kernel resolves a path name by name, from the directory \<open>Path r pre\<close>: it
      needs the permission to search the directory it stands in, refuses a name that
      is too long, and needs a directory at every name but the last one; the last
      name is looked up by the call itself\<close>
  "walk fs r pre [] = None"
| "walk fs r pre (x # xs) =
     (if Path r pre \<in> unsearchable fs then Some PermissionError
      else if NAME_MAX < encoded_length x then Some OSError_ENAMETOOLONG
      else if xs = [] then None
      else case map_of (nodes fs) (Path r (pre @ [x])) of
             None \<Rightarrow> Some FileNotFoundError
           | Some (File _) \<Rightarrow> Some NotADirectoryError
           | Some Dir \<Rightarrow> walk fs r (pre @ [x]) xs)"

definition path_error :: "filesystem \<Rightarrow> Path \<Rightarrow> os_error option" where
  \<comment> \<open>the error that a system call on \<open>p\<close> raises before it looks the last name up:
      Python refuses a null byte before the call, the kernel a path that is too long,
      and then the path is resolved\<close>
  "path_error fs p =
     (if CHR 0x00 \<in> set (str_path p) then Some ValueError
      else if PATH_MAX \<le> encoded_length (str_path p) then Some OSError_ENAMETOOLONG
      else walk fs (path_root p) [] (path_parts p))"

definition exists :: "filesystem \<Rightarrow> Path \<Rightarrow> os_error + bool" where
  \<comment> \<open>\<open>path.exists()\<close>: \<open>stat\<close>, where \<open>ENOENT\<close>, \<open>ENOTDIR\<close> and \<open>ValueError\<close> give
      \<open>False\<close> and every other error is raised; a path without parts (the root, the
      working directory) exists\<close>
  "exists fs p =
     (case path_error fs p of
        Some err \<Rightarrow>
          if err = ValueError \<or> err = FileNotFoundError \<or> err = NotADirectoryError
          then Inr False else Inl err
      | None \<Rightarrow> Inr (path_parts p = [] \<or> map_of (nodes fs) p \<noteq> None))"

definition is_dir :: "filesystem \<Rightarrow> Path \<Rightarrow> bool" where
  \<comment> \<open>the node at \<open>p\<close> is a directory; a path without parts is one\<close>
  "is_dir fs p = (path_parts p = [] \<or> map_of (nodes fs) p = Some Dir)"

definition glob :: "filesystem \<Rightarrow> Path \<Rightarrow> string \<Rightarrow> Path list" where
  \<comment> \<open>\<open>d.glob("*" + suffix)\<close>, called once \<open>d.exists()\<close> has returned \<open>True\<close>: the entries
      of the directory \<open>d\<close> whose name ends with \<open>suffix\<close>, in the order of the listing;
      nothing when \<open>d\<close> is not a directory, and nothing when it may not be listed
      (\<open>glob\<close> passes over the \<open>PermissionError\<close> of the listing)\<close>
  "glob fs d suffix =
     (if is_dir fs d \<and> d \<notin> unreadable fs
      then filter (\<lambda>p. path_root p = path_root d \<and> path_parts p \<noteq> []
                        \<and> path_parent p = d \<and> endswith (path_name p) suffix)
             (map fst (nodes fs))
      else [])"

fun universal_newlines :: "string \<Rightarrow> string" where
  \<comment> \<open>reading in text mode: \<open>\r\n\<close> and \<open>\r\<close> become \<open>\n\<close>\<close>
  "universal_newlines [] = []"
| "universal_newlines [c] = (if c = CHR 0x0D then [CHR 0x0A] else [c])"
| "universal_newlines (c # d # s) =
     (if c = CHR 0x0D
      then (if d = CHR 0x0A then CHR 0x0A # universal_newlines s
            else CHR 0x0A # universal_newlines (d # s))
      else c # universal_newlines (d # s))"

definition read_text :: "filesystem \<Rightarrow> Path \<Rightarrow> os_error + string" where
  "read_text fs p =
     (case path_error fs p of
        Some err \<Rightarrow> Inl err
      | None \<Rightarrow>
          if path_parts p = [] then Inl IsADirectoryError
          else case map_of (nodes fs) p of
                 None \<Rightarrow> Inl FileNotFoundError
               | Some Dir \<Rightarrow> Inl IsADirectoryError
               | Some (File r) \<Rightarrow>
                   (case r of
                      Inl err \<Rightarrow> Inl err
                    | Inr stored \<Rightarrow> Inr (universal_newlines stored)))"

fun mkdir_from :: "filesystem \<Rightarrow> string \<Rightarrow> string list \<Rightarrow> string list \<Rightarrow> os_error + filesystem" where
  \<comment> \<open>create the directories \<open>pre @ [x]\<close>, \<open>pre @ [x, y]\<close>, ... that do not exist yet\<close>
  "mkdir_from fs r pre [] = Inr fs"
| "mkdir_from fs r pre (x # xs) =
     (let d = Path r (pre @ [x])
      in if Path r pre \<in> unsearchable fs then Inl PermissionError
         else if NAME_MAX < encoded_length x then Inl OSError_ENAMETOOLONG
         else case map_of (nodes fs) d of
                Some Dir \<Rightarrow> mkdir_from fs r (pre @ [x]) xs
              | Some (File _) \<Rightarrow> Inl (if xs = [] then FileExistsError else NotADirectoryError)
              | None \<Rightarrow>
                  if d \<in> denied fs then Inl PermissionError
                  else mkdir_from (fs\<lparr>nodes := nodes fs @ [(d, Dir)]\<rparr>) r (pre @ [x]) xs)"

definition mkdir_parents :: "filesystem \<Rightarrow> Path \<Rightarrow> os_error + filesystem" where
  \<comment> \<open>\<open>d.mkdir(parents=True, exist_ok=True)\<close>\<close>
  "mkdir_parents fs d =
     (if CHR 0x00 \<in> set (str_path d) then Inl ValueError
      else if PATH_MAX \<le> encoded_length (str_path d) then Inl OSError_ENAMETOOLONG
      else mkdir_from fs (path_root d) [] (path_parts d))"

definition write_text :: "filesystem \<Rightarrow> Path \<Rightarrow> string \<Rightarrow> os_error + filesystem" where
  \<comment> \<open>\<open>p.write_text(text)\<close>: on POSIX the text is stored as it is (\<open>\n\<close> is the line
      separator, so writing translates nothing)\<close>
  "write_text fs p text =
     (case path_error fs p of
        Some err \<Rightarrow> Inl err
      | None \<Rightarrow>
          if is_dir fs p then Inl IsADirectoryError
          else if p \<in> denied fs then Inl PermissionError
          else Inr (fs\<lparr>nodes := AList.update p (File (Inr text)) (nodes fs)\<rparr>))"

definition unlink :: "filesystem \<Rightarrow> Path \<Rightarrow> os_error + filesystem" where
  "unlink fs p =
     (case path_error fs p of
        Some err \<Rightarrow> Inl err
      | None \<Rightarrow>
          if path_parts p = [] then Inl IsADirectoryError
          else case map_of (nodes fs) p of
                 None \<Rightarrow> Inl FileNotFoundError
               | Some nd \<Rightarrow>
                   if p \<in> denied fs then Inl PermissionError
                   else if nd = Dir then Inl IsADirectoryError
                   else Inr (fs\<lparr>nodes := AList.delete p (nodes fs)\<rparr>))"

section \<open>The entry store (desktop\_file.py)\<close>

text \<open>\<open>Path.home()\<close> is the parameter \<open>home\<close>.\<close>

definition get_user_applications_dir :: "Path \<Rightarrow> Path" where
  "get_user_applications_dir home =
     path_join (path_join (path_join home ''.local'') ''share'') ''applications''"

definition get_system_applications_dir :: "Path" where
  "get_system_applications_dir = parse_path ''/usr/share/applications''"

definition sort_name :: "Path \<times> bool \<Rightarrow> string" where
  \<comment> \<open>the sort key \<open>lambda x: x[0].name.lower()\<close>\<close>
  "sort_name x = lower (path_name (fst x))"

definition get_all_desktop_files :: "filesystem \<Rightarrow> Path \<Rightarrow> os_error + (Path \<times> bool) list" where
  \<comment> \<open>an error that \<open>exists\<close> raises leaves the function\<close>
  "get_all_desktop_files fs home =
     (let files = [];
          user_dir = get_user_applications_dir home
      in case exists fs user_dir of
           Inl err \<Rightarrow> Inl err
         | Inr user_exists \<Rightarrow>
             (let files = (if user_exists
                           then files @ map (\<lambda>f. (f, True)) (glob fs user_dir ''.desktop'')
                           else files);
                  system_dir = get_system_applications_dir
              in case exists fs system_dir of
                   Inl err \<Rightarrow> Inl err
                 | Inr system_exists \<Rightarrow>
                     (let files = (if system_exists
                                   then files @ map (\<lambda>f. (f, False)) (glob fs system_dir ''.desktop'')
                                   else files)
                      in Inr (sort_key sort_name files))))"

definition from_file :: "filesystem \<Rightarrow> Path \<Rightarrow> os_error + DesktopEntry" where
  "from_file fs p =
     (case read_text fs p of
        Inl err \<Rightarrow> Inl err
      | Inr content \<Rightarrow> Inr (from_string content (Some (str_path p))))"

definition load_step :: "filesystem \<Rightarrow> DesktopEntry list \<Rightarrow> Path \<times> bool \<Rightarrow> DesktopEntry list" where
  \<comment> \<open>one round of the loop of \<open>load_all_entries\<close>: \<open>try\<close> to append, \<open>except\<close> pass\<close>
  "load_step fs entries x =
     (case from_file fs (fst x) of
        Inr e \<Rightarrow> entries @ [e]
      | Inl _ \<Rightarrow> entries)"

definition load_all_entries :: "filesystem \<Rightarrow> Path \<Rightarrow> os_error + DesktopEntry list" where
  \<comment> \<open>\<open>get_all_desktop_files()\<close> is called outside the \<open>try\<close>: its error leaves the
      function\<close>
  "load_all_entries fs home =
     (case get_all_desktop_files fs home of
        Inl err \<Rightarrow> Inl err
      | Inr files \<Rightarrow> Inr (foldl (load_step fs) [] files))"

definition default_filename :: "DesktopEntry \<Rightarrow> string" where
  \<comment> \<open>\<open>self.name.lower().replace(" ", "-") + ".desktop"\<close>\<close>
  "default_filename e = replace_char (CHR '' '') (CHR ''-'') (lower (name e)) @ ''.desktop''"

definition save_path :: "Path \<Rightarrow> DesktopEntry \<Rightarrow> Path option \<Rightarrow> Path" where
  \<comment> \<open>the path \<open>save\<close> writes to\<close>
  "save_path home e path_arg =
     (case path_arg of
        Some p \<Rightarrow> p
      | None \<Rightarrow>
          (case file_path e of
             Some s \<Rightarrow>
               if s \<noteq> [] then parse_path s
               else path_join (get_user_applications_dir home) (default_filename e)
           | None \<Rightarrow> path_join (get_user_applications_dir home) (default_filename e)))"

definition save :: "filesystem \<Rightarrow> Path \<Rightarrow> DesktopEntry \<Rightarrow> Path option
    \<Rightarrow> os_error + (Path \<times> DesktopEntry \<times> filesystem)" where
  \<comment> \<open>returns the path, the entry with its \<open>file_path\<close> set, and the file system\<close>
  "save fs home e path_arg =
     (let p = save_path home e path_arg
      in case mkdir_parents fs (path_parent p) of
           Inl err \<Rightarrow> Inl err
         | Inr fs1 \<Rightarrow>
             (case write_text fs1 p (to_string e) of
                Inl err \<Rightarrow> Inl err
              | Inr fs2 \<Rightarrow> Inr (p, e\<lparr>file_path := Some (str_path p)\<rparr>, fs2)))"

section \<open>Deleting an entry (app.py)\<close>

datatype notification =
  NoEntrySelected | FileNotFound | CannotDeleteSystemEntries | Deleted string
  | ErrorDeleting os_error

definition action_delete :: "filesystem \<Rightarrow> DesktopEntry option
    \<Rightarrow> os_error + (notification \<times> DesktopEntry option \<times> filesystem)" where
  \<comment> \<open>returns the notification, \<open>current_entry\<close> and the file system; \<open>path.exists()\<close> is
      called outside the \<open>try\<close>, so its error leaves the function. What follows a
      deletion on the screen (the editor is cleared, the list is loaded again) is
      left out\<close>
  "action_delete fs current_entry =
     (case current_entry of
        None \<Rightarrow> Inr (NoEntrySelected, current_entry, fs)
      | Some e \<Rightarrow>
          (case file_path e of
             None \<Rightarrow> Inr (NoEntrySelected, current_entry, fs)
           | Some s \<Rightarrow>
               if s = [] then Inr (NoEntrySelected, current_entry, fs)
               else
                 (let p = parse_path s
                  in case exists fs p of
                       Inl err \<Rightarrow> Inl err
                     | Inr found \<Rightarrow>
                         if \<not> found then Inr (FileNotFound, current_entry, fs)
                         else if \<not> contains (str_path p) ''.local''
                           then Inr (CannotDeleteSystemEntries, current_entry, fs)
                         else
                           (case unlink fs p of
                              Inr fs' \<Rightarrow> Inr (Deleted (path_name p), None, fs')
                            | Inl err \<Rightarrow> Inr (ErrorDeleting err, current_entry, fs)))))"

definition lies_under :: "Path \<Rightarrow> Path \<Rightarrow> bool" where
  \<comment> \<open>the path \<open>p\<close> lies under the directory \<open>d\<close>\<close>
  "lies_under d p =
     (path_root p = path_root d
      \<and> length (path_parts d) < length (path_parts p)
      \<and> take (length (path_parts d)) (path_parts p) = path_parts d)"

section \<open>Notions used to state the properties\<close>

definition opt_line :: "string \<Rightarrow> string \<Rightarrow> string list" where
  \<comment> \<open>the line of an optional field: left out when the value is empty\<close>
  "opt_line key v = (if v = [] then [] else [key @ v])"

definition exec_value :: "DesktopEntry \<Rightarrow> string" where
  \<comment> \<open>the value of the Exec line: the command, behind \<open>env\<close> and the variables when
      \<open>env_vars\<close> holds any\<close>
  "exec_value e =
     (if env_parts (env_vars e) \<noteq> []
      then ''env '' @ join '' '' (env_parts (env_vars e)) @ '' '' @ exec e
      else exec e)"


text \<open>
  What a text assigns, said of its lines and not of the scanner. A line is a section
  header when, trimmed, it starts with \<open>[\<close> and ends with \<open>]\<close>. A line assigns the
  value \<open>v\<close> to the key \<open>k\<close> when, trimmed, it is neither blank nor a comment
  nor a section header, holds an \<open>=\<close>, and \<open>k\<close> and \<open>v\<close> are what stands before
  and after its first \<open>=\<close>, trimmed. The line at index \<open>i\<close> is in the \<open>[Desktop Entry]\<close> section
  when a header \<open>[Desktop Entry]\<close> stands before it with no other section header in
  between. The section assigns \<open>v\<close> to \<open>k\<close> when one of its lines does and none of its
  later lines assigns \<open>k\<close> again; it never assigns \<open>k\<close> when none of its lines does.
\<close>

definition is_section_header :: "string \<Rightarrow> bool" where
  "is_section_header l = (startswith (strip l) ''['' \<and> endswith (strip l) '']'')"

definition assigns :: "string \<Rightarrow> string \<Rightarrow> string \<Rightarrow> bool" where
  "assigns k v l =
     (strip l \<noteq> [] \<and> \<not> startswith (strip l) ''#'' \<and> \<not> is_section_header l
      \<and> CHR ''='' \<in> set (strip l)
      \<and> strip (takeWhile (\<lambda>c. c \<noteq> CHR ''='') (strip l)) = k
      \<and> strip (tl (dropWhile (\<lambda>c. c \<noteq> CHR ''='') (strip l))) = v)"

definition in_scope :: "string list \<Rightarrow> nat \<Rightarrow> bool" where
  "in_scope ls i =
     (\<exists>j<i. strip (ls ! j) = ''[Desktop Entry]''
        \<and> (\<forall>m<i. j < m \<longrightarrow> \<not> is_section_header (ls ! m)))"

definition assigned_last :: "string list \<Rightarrow> string \<Rightarrow> string \<Rightarrow> bool" where
  "assigned_last ls k v =
     (\<exists>i<length ls. in_scope ls i \<and> assigns k v (ls ! i)
        \<and> (\<forall>j<length ls. i < j \<and> in_scope ls j \<longrightarrow> (\<forall>v'. \<not> assigns k v' (ls ! j))))"

definition never_assigned :: "string list \<Rightarrow> string \<Rightarrow> bool" where
  "never_assigned ls k = (\<forall>i<length ls. in_scope ls i \<longrightarrow> (\<forall>v. \<not> assigns k v (ls ! i)))"

definition parsed_field :: "string list \<Rightarrow> string \<Rightarrow> string \<Rightarrow> string \<Rightarrow> bool" where
  \<comment> \<open>the field \<open>x\<close> of the entry parsed from the lines \<open>ls\<close> is what the section
      assigns to \<open>k\<close>, and \<open>dflt\<close> when it never assigns \<open>k\<close>\<close>
  "parsed_field ls k dflt x =
     ((never_assigned ls k \<longrightarrow> x = dflt) \<and> (\<forall>v. assigned_last ls k v \<longrightarrow> x = v))"

section \<open>Example inputs\<close>

definition entry_env :: DesktopEntry where
  "entry_env = \<lparr> name = ''App'', exec = ''mycommand --flag'', entry_type = ''Application'',
     comment = [], icon = [], path = [], terminal = False, categories = [], keywords' = [],
     url = [], mime_type = [], hidden = False, env_vars = ''FOO=1;BAR=2'',
     startup_wm_class = [], file_path = None \<rparr>"

definition text_defaults :: string where
  "text_defaults = ''# a comment\<newline>Name=Outside\<newline>[Desktop Entry]\<newline>Terminal = TRUE\<newline>Hidden=yes\<newline>[Desktop Action X]\<newline>Name=Action\<newline>''"

definition text_env :: string where
  "text_env = ''[Desktop Entry]\<newline>Name=App\<newline>Exec=env FOO=1 BAR=2 mycommand --flag\<newline>X-Env-Vars=FOO=1;BAR=2\<newline>''"

definition text_env_twice :: string where
  "text_env_twice = ''[Desktop Entry]\<newline>Exec=env FOO=1 BAR=2 mycommand --flag\<newline>X-Env-Vars=FOO=1;BAR=2\<newline>Exec=other\<newline>''"


definition home_u :: Path where
  "home_u = parse_path ''/home/u''"

definition fs_two_dirs :: filesystem where
  "fs_two_dirs = \<lparr> nodes = [
     (parse_path ''/home'', Dir),
     (parse_path ''/home/u'', Dir),
     (parse_path ''/home/u/.local'', Dir),
     (parse_path ''/home/u/.local/share'', Dir),
     (parse_path ''/usr'', Dir),
     (parse_path ''/usr/share'', Dir),
     (parse_path ''/home/u/.local/share/applications'', Dir),
     (parse_path ''/usr/share/applications'', Dir),
     (parse_path ''/home/u/.local/share/applications/B.desktop'',
        File (Inr ''[Desktop Entry]\<newline>Name=B\<newline>'')),
     (parse_path ''/usr/share/applications/c.desktop'', File (Inl UnicodeDecodeError)),
     (parse_path ''/home/u/.local/share/applications/notes.txt'', File (Inr ''x'')),
     (parse_path ''/home/u/.local/share/applications/a.desktop'',
        File (Inr (''[Desktop Entry]'' @ [CHR 0x0D, CHR 0x0A] @ ''Name=A'' @ [CHR 0x0D, CHR 0x0A])))],
     denied = {}, unsearchable = {}, unreadable = {} \<rparr>"

definition fs_locked :: filesystem where
  \<comment> \<open>the directory \<open>/home/u/.local\<close> may not be searched\<close>
  "fs_locked = \<lparr> nodes = [
     (parse_path ''/home'', Dir),
     (parse_path ''/home/u'', Dir),
     (parse_path ''/home/u/.local'', Dir),
     (parse_path ''/home/u/.local/share'', Dir),
     (parse_path ''/home/u/.local/share/applications'', Dir),
     (parse_path ''/usr'', Dir),
     (parse_path ''/usr/share'', Dir),
     (parse_path ''/usr/share/applications'', Dir),
     (parse_path ''/usr/share/applications/c.desktop'',
        File (Inr ''[Desktop Entry]\<newline>Name=C\<newline>''))],
     denied = {}, unsearchable = {parse_path ''/home/u/.local''}, unreadable = {} \<rparr>"

definition entry_my_app :: DesktopEntry where
  "entry_my_app = \<lparr> name = ''My App'', exec = ''myapp'', entry_type = ''Application'',
     comment = [], icon = [], path = [], terminal = False, categories = [], keywords' = [],
     url = [], mime_type = [], hidden = False, env_vars = [],
     startup_wm_class = [], file_path = None \<rparr>"

definition entry_abs_name :: DesktopEntry where
  "entry_abs_name = \<lparr> name = ''/tmp/x'', exec = ''myapp'', entry_type = ''Application'',
     comment = [], icon = [], path = [], terminal = False, categories = [], keywords' = [],
     url = [], mime_type = [], hidden = False, env_vars = [],
     startup_wm_class = [], file_path = None \<rparr>"

definition fs_empty :: filesystem where
  "fs_empty = \<lparr> nodes = [], denied = {}, unsearchable = {}, unreadable = {} \<rparr>"

definition fs_system :: filesystem where
  "fs_system = \<lparr> nodes = [
     (Path ''/'' [''usr''], Dir),
     (Path ''/'' [''usr'', ''share''], Dir),
     (Path ''/'' [''usr'', ''share'', ''applications''], Dir),
     (Path ''/'' [''usr'', ''share'', ''applications'', ''org.local.desktop''],
        File (Inr ''[Desktop Entry]\<newline>Name=Local\<newline>'')),
     (Path ''/'' [''usr'', ''share'', ''applications'', ''editor.desktop''],
        File (Inr ''[Desktop Entry]\<newline>Name=Editor\<newline>''))],
     denied = {}, unsearchable = {}, unreadable = {} \<rparr>"

definition entry_system_local :: DesktopEntry where
  "entry_system_local = \<lparr> name = ''Local'', exec = [], entry_type = ''Application'',
     comment = [], icon = [], path = [], terminal = False, categories = [], keywords' = [],
     url = [], mime_type = [], hidden = False, env_vars = [],
     startup_wm_class = [], file_path = Some ''/usr/share/applications/org.local.desktop'' \<rparr>"

definition entry_system_editor :: DesktopEntry where
  "entry_system_editor = \<lparr> name = ''Editor'', exec = [], entry_type = ''Application'',
     comment = [], icon = [], path = [], terminal = False, categories = [], keywords' = [],
     url = [], mime_type = [], hidden = False, env_vars = [],
     startup_wm_class = [], file_path = Some ''/usr/share/applications/editor.desktop'' \<rparr>"

definition entry_double_space :: DesktopEntry where
  "entry_double_space = \<lparr> name = ''App'', exec = ''mycommand  --flag'', entry_type = ''Application'',
     comment = [], icon = [], path = [], terminal = False, categories = [], keywords' = [],
     url = [], mime_type = [], hidden = False, env_vars = ''FOO=1;BAR=2'',
     startup_wm_class = [], file_path = None \<rparr>"

definition text_env_tokens :: string where
  "text_env_tokens = ''[Desktop Entry]\<newline>X-Env-Vars=FOO=1\<newline>Exec=env A=1   B=2\<newline>''"

definition text_env_spaces :: string where
  "text_env_spaces = ''[Desktop Entry]\<newline>X-Env-Vars=FOO=1\<newline>Exec=env A=1  cmd   --x=1  y\<newline>''"

definition text_no_section :: string where
  "text_no_section = ''Name=App\<newline>Exec=app\<newline>''"

definition entry_blank_env :: DesktopEntry where
  "entry_blank_env = \<lparr> name = ''App'', exec = ''cmd'', entry_type = ''Application'',
     comment = [], icon = [], path = [], terminal = False, categories = [], keywords' = [],
     url = [], mime_type = [], hidden = False, env_vars = '' ; '',
     startup_wm_class = [], file_path = None \<rparr>"

section \<open>Notions for the round trip through the codec\<close>

text \<open>
  An entry survives the round trip when its text fields are single lines without
  surrounding white space, and its command comes back out of the env prefix.
\<close>

definition no_linebreak :: "string \<Rightarrow> bool" where
  "no_linebreak s = (\<forall>c\<in>set s. \<not> is_linebreak c)"

definition single_line :: "string \<Rightarrow> bool" where
  "single_line v = (strip v = v \<and> no_linebreak v)"

definition plain_fields :: "DesktopEntry \<Rightarrow> bool" where
  "plain_fields e =
     (single_line (name e) \<and> single_line (exec e) \<and> single_line (entry_type e)
      \<and> single_line (comment e) \<and> single_line (icon e) \<and> single_line (path e)
      \<and> single_line (categories e) \<and> single_line (keywords' e) \<and> single_line (url e)
      \<and> single_line (mime_type e) \<and> single_line (env_vars e)
      \<and> single_line (startup_wm_class e))"

definition exec_survives :: "DesktopEntry \<Rightarrow> bool" where
  "exec_survives e =
     (exec e = [] \<or> env_vars e = [] \<or>
      (if env_parts (env_vars e) = [] then \<not> startswith (exec e) ''env ''
       else (\<forall>t\<in>set (split_ws (join '' '' (env_parts (env_vars e)))). CHR ''='' \<in> set t)
            \<and> join '' '' (split_ws (exec e)) = exec e
            \<and> CHR ''='' \<notin> set (hd (split_ws (exec e)))))"

text \<open>
  Auxiliary notions of the proof: the serialized lines as key and value pairs, and the
  dictionary that scanning them builds.
\<close>

definition good_key :: "string \<Rightarrow> bool" where
  "good_key k = (k \<noteq> [] \<and> strip k = k \<and> hd k \<noteq> CHR ''#'' \<and> hd k \<noteq> CHR ''[''
     \<and> CHR ''='' \<notin> set k \<and> no_linebreak k)"

definition line_of :: "string \<times> string \<Rightarrow> string" where
  "line_of kv = fst kv @ ''='' @ snd kv"

definition optf :: "string \<Rightarrow> string \<Rightarrow> (string \<times> string) list" where
  "optf k v = (if v = [] then [] else [(k, v)])"

definition fields :: "DesktopEntry \<Rightarrow> (string \<times> string) list" where
  "fields e =
     [(''Type'', entry_type e), (''Name'', name e)]
     @ optf ''Comment'' (comment e)
     @ optf ''Icon'' (icon e)
     @ optf ''Exec'' (if exec e = [] then [] else exec_value e)
     @ optf ''Path'' (path e)
     @ [(''Terminal'', bool_str (terminal e))]
     @ optf ''Categories'' (categories e)
     @ optf ''Keywords'' (keywords' e)
     @ optf ''URL'' (url e)
     @ optf ''MimeType'' (mime_type e)
     @ optf ''StartupWMClass'' (startup_wm_class e)
     @ [(''Hidden'', bool_str (hidden e))]
     @ optf ''X-Env-Vars'' (env_vars e)"

definition put :: "(string \<rightharpoonup> string) \<Rightarrow> string \<times> string \<Rightarrow> (string \<rightharpoonup> string)" where
  "put m kv = m(fst kv \<mapsto> snd kv)"

definition opt_upd :: "string \<Rightarrow> string \<Rightarrow> (string \<rightharpoonup> string) \<Rightarrow> (string \<rightharpoonup> string)" where
  "opt_upd k v d = (if v = [] then d else d(k \<mapsto> v))"

section \<open>Evaluation and basic facts\<close>

lemmas str_defs = strip_def is_space_def is_linebreak_def startswith_def endswith_def
  str_partition_def split_ws_def splitlines_def lower_def lower_char_def dict_get_def bool_str_def

lemmas codec_defs = to_string_def to_lines_def from_string_def parse_data_def scan_line_def
  unwrap_exec_def env_parts_def

lemma split_on_Nil_iff [simp]: "split_on sep s \<noteq> []"
  by (induction s) (auto split: list.splits)

lemma env_parts_Nil [simp]: "env_parts [] = []"
  by (simp add: env_parts_def strip_def)

lemma to_lines_eq:
  "to_lines e =
     [''[Desktop Entry]'', ''Type='' @ entry_type e, ''Name='' @ name e]
     @ opt_line ''Comment='' (comment e)
     @ opt_line ''Icon='' (icon e)
     @ opt_line ''Exec='' (if exec e = [] then [] else exec_value e)
     @ opt_line ''Path='' (path e)
     @ [''Terminal='' @ bool_str (terminal e)]
     @ opt_line ''Categories='' (categories e)
     @ opt_line ''Keywords='' (keywords' e)
     @ opt_line ''URL='' (url e)
     @ opt_line ''MimeType='' (mime_type e)
     @ opt_line ''StartupWMClass='' (startup_wm_class e)
     @ [''Hidden='' @ bool_str (hidden e)]
     @ opt_line ''X-Env-Vars='' (env_vars e)"
proof -
  have opt: "\<And>v ls k. (if v \<noteq> [] then ls @ [k @ v] else ls) = ls @ opt_line k v"
    by (simp add: opt_line_def)
  have ex: "(if exec e \<noteq> [] then
               (if env_vars e \<noteq> [] then
                  (if env_parts (env_vars e) \<noteq> []
                   then ls @ [''Exec=env '' @ join '' '' (env_parts (env_vars e)) @ '' '' @ exec e]
                   else ls @ [''Exec='' @ exec e])
                else ls @ [''Exec='' @ exec e])
             else ls) = ls @ opt_line ''Exec='' (if exec e = [] then [] else exec_value e)" for ls
    by (simp add: opt_line_def exec_value_def)
  show ?thesis
    unfolding to_lines_def Let_def ex opt by simp
qed

lemma join_snoc: "xs \<noteq> [] \<Longrightarrow> join sep (xs @ [x]) = join sep xs @ sep @ x"
  by (induction sep xs rule: join.induct) auto

lemma join_append: "xs \<noteq> [] \<Longrightarrow> ys \<noteq> [] \<Longrightarrow> join sep (xs @ ys) = join sep xs @ sep @ join sep ys"
  by (induction sep xs rule: join.induct) (auto simp: neq_Nil_conv)

lemma join_unlines: "xs \<noteq> [] \<Longrightarrow> join sep xs @ sep = concat (map (\<lambda>l. l @ sep) xs)"
  by (induction sep xs rule: join.induct) auto

lemma to_lines_not_Nil: "to_lines e \<noteq> []"
  by (simp add: to_lines_eq)

lemma to_string_unlines: "to_string e = concat (map (\<lambda>l. l @ ''\<newline>'') (to_lines e))"
  unfolding to_string_def by (rule join_unlines) (rule to_lines_not_Nil)

lemma env_parts_example: "env_parts ''FOO=1;BAR=2'' = [''FOO=1'', ''BAR=2'']"
  by (simp add: env_parts_def str_defs)

section \<open>Lines, sections and assignments of a text\<close>

text \<open>
  The scanner of \<open>from_string\<close> refines the notions \<open>assigned_last\<close> and
  \<open>never_assigned\<close>: after the loop over the lines, the dictionary holds for each key
  the value that the \<open>[Desktop Entry]\<close> section assigns to it last, and nothing for
  a key that the section never assigns.
\<close>

lemma header_line: "strip l = ''[Desktop Entry]'' \<Longrightarrow> is_section_header l"
  by (simp add: is_section_header_def startswith_def endswith_def)

lemma scan_line_alt:
  "scan_line st raw =
     (if strip raw = [] \<or> startswith (strip raw) ''#'' then st
      else if is_section_header raw then (strip raw = ''[Desktop Entry]'', snd st)
      else if fst st \<and> CHR ''='' \<in> set (strip raw)
        then (fst st, (snd st)(strip (takeWhile (\<lambda>c. c \<noteq> CHR ''='') (strip raw))
                 \<mapsto> strip (tl (dropWhile (\<lambda>c. c \<noteq> CHR ''='') (strip raw)))))
      else st)"
  by (simp add: scan_line_def is_section_header_def str_partition_def Let_def)

lemma header_not_blank:
  "is_section_header l \<Longrightarrow> strip l \<noteq> [] \<and> \<not> startswith (strip l) ''#''"
  by (cases "strip l") (auto simp: is_section_header_def startswith_def)

lemma scan_line_header:
  "is_section_header l \<Longrightarrow> scan_line (b, d) l = (strip l = ''[Desktop Entry]'', d)"
  using header_not_blank [of l] by (simp add: scan_line_alt)

lemma scan_line_assigns:
  "assigns k v l \<Longrightarrow> scan_line (True, d) l = (True, d(k \<mapsto> v))"
  by (simp add: scan_line_alt assigns_def)

lemma scan_line_fst:
  "\<not> is_section_header l \<Longrightarrow> fst (scan_line (b, d) l) = b"
  by (simp add: scan_line_alt)

lemma scan_line_snd:
  "\<not> is_section_header l \<Longrightarrow> \<not> (b \<and> (\<exists>v. assigns k v l)) \<Longrightarrow> snd (scan_line (b, d) l) k = d k"
  by (auto simp: scan_line_alt assigns_def)

lemma assigns_not_header: "assigns k v l \<Longrightarrow> \<not> is_section_header l"
  by (simp add: assigns_def)

lemma assigns_value: "assigns k v l \<Longrightarrow> assigns k v' l \<Longrightarrow> v = v'"
  by (simp add: assigns_def)

lemma in_scope_append: "i \<le> length ls \<Longrightarrow> in_scope (ls @ xs) i = in_scope ls i"
  by (auto simp: in_scope_def nth_append)

lemma in_scope_snoc:
  "in_scope (ls @ [l]) (Suc (length ls)) =
     (if is_section_header l then strip l = ''[Desktop Entry]'' else in_scope ls (length ls))"
proof (cases "is_section_header l")
  case True
  show ?thesis
  proof (cases "strip l = ''[Desktop Entry]''")
    case de: True
    have "length ls < Suc (length ls) \<and> strip ((ls @ [l]) ! length ls) = ''[Desktop Entry]''
        \<and> (\<forall>m<Suc (length ls). length ls < m \<longrightarrow> \<not> is_section_header ((ls @ [l]) ! m))"
      using de by simp
    then have "in_scope (ls @ [l]) (Suc (length ls))"
      unfolding in_scope_def by blast
    with True de show ?thesis by simp
  next
    case nde: False
    have "\<not> in_scope (ls @ [l]) (Suc (length ls))"
    proof
      assume "in_scope (ls @ [l]) (Suc (length ls))"
      then obtain j where j: "j < Suc (length ls)" "strip ((ls @ [l]) ! j) = ''[Desktop Entry]''"
        "\<forall>m<Suc (length ls). j < m \<longrightarrow> \<not> is_section_header ((ls @ [l]) ! m)"
        unfolding in_scope_def by blast
      from j(1,2) nde have "j < length ls"
        by (cases "j = length ls") auto
      with j(3) [rule_format, of "length ls"] have "\<not> is_section_header ((ls @ [l]) ! length ls)"
        by simp
      with True show False by simp
    qed
    with True nde show ?thesis by simp
  qed
next
  case False
  have "in_scope (ls @ [l]) (Suc (length ls)) = in_scope ls (length ls)"
  proof
    assume "in_scope (ls @ [l]) (Suc (length ls))"
    then obtain j where j: "j < Suc (length ls)" "strip ((ls @ [l]) ! j) = ''[Desktop Entry]''"
      "\<forall>m<Suc (length ls). j < m \<longrightarrow> \<not> is_section_header ((ls @ [l]) ! m)"
      unfolding in_scope_def by blast
    have "j \<noteq> length ls"
      using j(2) False header_line [of l] by auto
    with j(1) have lt: "j < length ls" by simp
    with j(2) have "strip (ls ! j) = ''[Desktop Entry]''"
      by (simp add: nth_append)
    moreover have "\<forall>m<length ls. j < m \<longrightarrow> \<not> is_section_header (ls ! m)"
      using j(3) by (auto simp: nth_append less_Suc_eq split: if_splits)
    ultimately show "in_scope ls (length ls)"
      unfolding in_scope_def using lt by blast
  next
    assume "in_scope ls (length ls)"
    then obtain j where j: "j < length ls" "strip (ls ! j) = ''[Desktop Entry]''"
      "\<forall>m<length ls. j < m \<longrightarrow> \<not> is_section_header (ls ! m)"
      unfolding in_scope_def by blast
    have "j < Suc (length ls) \<and> strip ((ls @ [l]) ! j) = ''[Desktop Entry]''
        \<and> (\<forall>m<Suc (length ls). j < m \<longrightarrow> \<not> is_section_header ((ls @ [l]) ! m))"
      using j False by (auto simp: nth_append less_Suc_eq)
    then show "in_scope (ls @ [l]) (Suc (length ls))"
      unfolding in_scope_def by blast
  qed
  with False show ?thesis by simp
qed

lemma scan_fst:
  "fst (foldl scan_line (False, Map.empty) ls) = in_scope ls (length ls)"
proof (induction ls rule: rev_induct)
  case Nil
  then show ?case by (simp add: in_scope_def)
next
  case (snoc l ls)
  obtain b d where s: "foldl scan_line (False, Map.empty) ls = (b, d)"
    by (cases "foldl scan_line (False, Map.empty) ls")
  with snoc have b: "b = in_scope ls (length ls)" by simp
  show ?case
  proof (cases "is_section_header l")
    case True
    then show ?thesis
      by (simp add: s scan_line_header in_scope_snoc)
  next
    case False
    then show ?thesis
      using scan_line_fst [OF False, of b d] by (simp add: s in_scope_snoc b)
  qed
qed

lemma in_scope_snoc_lt: "i \<le> length ls \<Longrightarrow> in_scope (ls @ [l]) i = in_scope ls i"
  by (rule in_scope_append)

lemma never_assigned_snoc:
  "never_assigned (ls @ [l]) k =
     (never_assigned ls k \<and> \<not> (in_scope ls (length ls) \<and> (\<exists>v. assigns k v l)))"
  by (auto simp: never_assigned_def less_Suc_eq nth_append in_scope_append)

lemma assigned_last_snoc:
  "assigned_last (ls @ [l]) k v =
     (if in_scope ls (length ls) \<and> (\<exists>v'. assigns k v' l) then assigns k v l
      else assigned_last ls k v)"
proof (cases "in_scope ls (length ls) \<and> (\<exists>v'. assigns k v' l)")
  case True
  show ?thesis
  proof
    assume "assigned_last (ls @ [l]) k v"
    then obtain i where i: "i < Suc (length ls)" "in_scope (ls @ [l]) i"
      "assigns k v ((ls @ [l]) ! i)"
      "\<forall>j<Suc (length ls). i < j \<and> in_scope (ls @ [l]) j \<longrightarrow> (\<forall>v'. \<not> assigns k v' ((ls @ [l]) ! j))"
      unfolding assigned_last_def by auto
    have "i = length ls"
    proof (rule ccontr)
      assume "i \<noteq> length ls"
      with i(1) have "i < length ls" by simp
      with i(4) [rule_format, of "length ls"] True show False
        by (simp add: in_scope_append)
    qed
    with i(3) have "assigns k v l" by simp
    with True show "if in_scope ls (length ls) \<and> (\<exists>v'. assigns k v' l) then assigns k v l
      else assigned_last ls k v" by simp
  next
    assume "if in_scope ls (length ls) \<and> (\<exists>v'. assigns k v' l) then assigns k v l
      else assigned_last ls k v"
    with True have a: "assigns k v l" by simp
    have "length ls < length (ls @ [l]) \<and> in_scope (ls @ [l]) (length ls)
        \<and> assigns k v ((ls @ [l]) ! length ls)
        \<and> (\<forall>j<length (ls @ [l]). length ls < j \<and> in_scope (ls @ [l]) j
              \<longrightarrow> (\<forall>v'. \<not> assigns k v' ((ls @ [l]) ! j)))"
      using True a by (simp add: in_scope_append)
    then show "assigned_last (ls @ [l]) k v"
      unfolding assigned_last_def by blast
  qed
next
  case False
  show ?thesis
  proof
    assume "assigned_last (ls @ [l]) k v"
    then obtain i where i: "i < Suc (length ls)" "in_scope (ls @ [l]) i"
      "assigns k v ((ls @ [l]) ! i)"
      "\<forall>j<Suc (length ls). i < j \<and> in_scope (ls @ [l]) j \<longrightarrow> (\<forall>v'. \<not> assigns k v' ((ls @ [l]) ! j))"
      unfolding assigned_last_def by auto
    have "i \<noteq> length ls"
      using i(2,3) False by (auto simp: in_scope_append)
    with i(1) have lt: "i < length ls" by simp
    have "in_scope ls i \<and> assigns k v (ls ! i)
        \<and> (\<forall>j<length ls. i < j \<and> in_scope ls j \<longrightarrow> (\<forall>v'. \<not> assigns k v' (ls ! j)))"
    proof (intro conjI allI impI)
      show "in_scope ls i" using i(2) lt by (simp add: in_scope_append)
      show "assigns k v (ls ! i)" using i(3) lt by (simp add: nth_append)
    next
      fix j v'
      assume j: "j < length ls" "i < j \<and> in_scope ls j"
      with i(4) [rule_format, of j] show "\<not> assigns k v' (ls ! j)"
        by (simp add: in_scope_append nth_append)
    qed
    with lt have "assigned_last ls k v"
      unfolding assigned_last_def by blast
    with False show "if in_scope ls (length ls) \<and> (\<exists>v'. assigns k v' l) then assigns k v l
      else assigned_last ls k v" by simp
  next
    assume "if in_scope ls (length ls) \<and> (\<exists>v'. assigns k v' l) then assigns k v l
      else assigned_last ls k v"
    with False have "assigned_last ls k v" by simp
    then obtain i where i: "i < length ls" "in_scope ls i" "assigns k v (ls ! i)"
      "\<forall>j<length ls. i < j \<and> in_scope ls j \<longrightarrow> (\<forall>v'. \<not> assigns k v' (ls ! j))"
      unfolding assigned_last_def by blast
    have "i < length (ls @ [l]) \<and> in_scope (ls @ [l]) i \<and> assigns k v ((ls @ [l]) ! i)
        \<and> (\<forall>j<length (ls @ [l]). i < j \<and> in_scope (ls @ [l]) j
              \<longrightarrow> (\<forall>v'. \<not> assigns k v' ((ls @ [l]) ! j)))"
    proof (intro conjI allI impI)
      show "i < length (ls @ [l])" using i(1) by simp
      show "in_scope (ls @ [l]) i" using i(1,2) by (simp add: in_scope_append)
      show "assigns k v ((ls @ [l]) ! i)" using i(1,3) by (simp add: nth_append)
    next
      fix j v'
      assume j: "j < length (ls @ [l])" "i < j \<and> in_scope (ls @ [l]) j"
      show "\<not> assigns k v' ((ls @ [l]) ! j)"
      proof (cases "j = length ls")
        case True
        with j(2) False show ?thesis by (auto simp: in_scope_append)
      next
        case ne: False
        with j(1) have "j < length ls" by simp
        with j(2) i(4) [rule_format, of j] show ?thesis
          by (simp add: in_scope_append nth_append)
      qed
    qed
    then show "assigned_last (ls @ [l]) k v"
      unfolding assigned_last_def by blast
  qed
qed

lemma scan_snd_snoc:
  assumes "foldl scan_line (False, Map.empty) ls = (b, d)"
  shows "snd (foldl scan_line (False, Map.empty) (ls @ [l])) k =
     (if in_scope ls (length ls) \<and> (\<exists>v. assigns k v l) then Some (THE v. assigns k v l) else d k)"
proof -
  have b: "b = in_scope ls (length ls)"
    using scan_fst [of ls] assms by simp
  show ?thesis
  proof (cases "in_scope ls (length ls) \<and> (\<exists>v. assigns k v l)")
    case True
    then obtain v where v: "assigns k v l" by blast
    then have "(THE v. assigns k v l) = v"
      by (blast intro: the_equality assigns_value)
    with True v b show ?thesis
      by (simp add: assms scan_line_assigns)
  next
    case False
    have "snd (foldl scan_line (False, Map.empty) (ls @ [l])) k = d k"
    proof (cases "is_section_header l")
      case True
      then show ?thesis by (simp add: assms scan_line_header)
    next
      case nh: False
      from False b have "\<not> (b \<and> (\<exists>v. assigns k v l))" by simp
      from scan_line_snd [OF nh this, of d] show ?thesis
        by (simp add: assms)
    qed
    then show ?thesis unfolding if_not_P [OF False] .
  qed
qed

lemma scan_snd_Some:
  "snd (foldl scan_line (False, Map.empty) ls) k = Some v \<longleftrightarrow> assigned_last ls k v"
proof (induction ls arbitrary: v rule: rev_induct)
  case Nil
  then show ?case by (simp add: assigned_last_def)
next
  case (snoc l ls)
  obtain b d where s: "foldl scan_line (False, Map.empty) ls = (b, d)"
    by (cases "foldl scan_line (False, Map.empty) ls")
  with snoc have IH: "\<And>v. d k = Some v \<longleftrightarrow> assigned_last ls k v" by simp
  show ?case
  proof (cases "in_scope ls (length ls) \<and> (\<exists>v. assigns k v l)")
    case True
    then obtain v0 where v0: "assigns k v0 l" by blast
    then have "(THE v. assigns k v l) = v0"
      by (blast intro: the_equality assigns_value)
    with True v0 show ?thesis
      unfolding scan_snd_snoc [OF s] assigned_last_snoc
      by (auto dest: assigns_value)
  next
    case False
    show ?thesis
      unfolding scan_snd_snoc [OF s] assigned_last_snoc if_not_P [OF False] by (rule IH)
  qed
qed

lemma scan_snd_None:
  "snd (foldl scan_line (False, Map.empty) ls) k = None \<longleftrightarrow> never_assigned ls k"
proof (induction ls rule: rev_induct)
  case Nil
  then show ?case by (simp add: never_assigned_def)
next
  case (snoc l ls)
  obtain b d where s: "foldl scan_line (False, Map.empty) ls = (b, d)"
    by (cases "foldl scan_line (False, Map.empty) ls")
  with snoc have IH: "d k = None \<longleftrightarrow> never_assigned ls k" by simp
  show ?case
    unfolding scan_snd_snoc [OF s] never_assigned_snoc using IH by auto
qed

lemma parse_data_Some:
  "parse_data content k = Some v \<longleftrightarrow> assigned_last (splitlines content) k v"
  by (simp add: parse_data_def scan_snd_Some)

lemma parse_data_None:
  "parse_data content k = None \<longleftrightarrow> never_assigned (splitlines content) k"
  by (simp add: parse_data_def scan_snd_None)

lemma dict_get_parse_data:
  "parsed_field (splitlines content) k dflt (dict_get (parse_data content) k dflt)"
proof (cases "parse_data content k")
  case None
  then have "never_assigned (splitlines content) k"
    by (simp add: parse_data_None)
  moreover have "\<And>v. \<not> assigned_last (splitlines content) k v"
    using None by (simp add: parse_data_Some [symmetric])
  ultimately show ?thesis
    using None by (simp add: parsed_field_def dict_get_def)
next
  case (Some v)
  then have "\<not> never_assigned (splitlines content) k"
    by (simp add: parse_data_None [symmetric])
  moreover have "\<And>v'. assigned_last (splitlines content) k v' \<Longrightarrow> v' = v"
    using Some by (simp add: parse_data_Some [symmetric])
  ultimately show ?thesis
    using Some by (auto simp: parsed_field_def dict_get_def)
qed

lemma dict_get_assigned:
  "assigned_last (splitlines content) k v \<Longrightarrow> dict_get (parse_data content) k dflt = v"
  by (simp add: parse_data_Some [symmetric] dict_get_def)

lemma dict_get_never:
  "never_assigned (splitlines content) k \<Longrightarrow> dict_get (parse_data content) k dflt = dflt"
  by (simp add: parse_data_None [symmetric] dict_get_def)

lemma no_header_never_assigned:
  assumes "\<forall>l\<in>set ls. strip l \<noteq> ''[Desktop Entry]''"
  shows "never_assigned ls k"
proof -
  have "\<not> in_scope ls i" if "i < length ls" for i
  proof
    assume "in_scope ls i"
    then obtain j where "j < i" "strip (ls ! j) = ''[Desktop Entry]''"
      unfolding in_scope_def by blast
    with that assms show False
      by (metis less_trans nth_mem)
  qed
  then show ?thesis
    by (simp add: never_assigned_def)
qed

section \<open>The Exec line of an entry with environment variables\<close>

text \<open>
  Claim C3, as amended. For every entry with a command: the tokens of \<open>env_vars\<close> are
  its parts between semicolons, trimmed, the blank ones left out. When there is a
  token, \<open>to_string\<close> emits the line \<open>Exec=env \<close>, the tokens joined by single
  spaces, a space and the command; when there is none (\<open>env_vars\<close> is empty or holds
  only blanks and semicolons), it emits \<open>Exec=\<close> and the command. The line is one of
  the lines of the serializer, and it stands in the text between two line feeds. For
  \<open>env_vars = "FOO=1;BAR=2"\<close> and \<open>exec = "mycommand --flag"\<close> it is the line
  \<open>Exec=env FOO=1 BAR=2 mycommand --flag\<close>.
\<close>

theorem to_string_exec_line:
  assumes "exec e \<noteq> []"
    and "tokens = map strip (filter (\<lambda>p. strip p \<noteq> []) (split_on (CHR '';'') (env_vars e)))"
    and "line = (if tokens \<noteq> [] then ''Exec=env '' @ join '' '' tokens @ '' '' @ exec e
                 else ''Exec='' @ exec e)"
  shows "line \<in> set (to_lines e)
     \<and> (\<exists>pre post. to_string e = pre @ ''\<newline>'' @ line @ ''\<newline>'' @ post)
     \<and> (env_vars e = ''FOO=1;BAR=2'' \<and> exec e = ''mycommand --flag''
          \<longrightarrow> line = ''Exec=env FOO=1 BAR=2 mycommand --flag'')"
proof -
  define before where "before = [''[Desktop Entry]'', ''Type='' @ entry_type e, ''Name='' @ name e]
     @ opt_line ''Comment='' (comment e) @ opt_line ''Icon='' (icon e)"
  define after where "after = opt_line ''Path='' (path e)
     @ [''Terminal='' @ bool_str (terminal e)]
     @ opt_line ''Categories='' (categories e)
     @ opt_line ''Keywords='' (keywords' e)
     @ opt_line ''URL='' (url e)
     @ opt_line ''MimeType='' (mime_type e)
     @ opt_line ''StartupWMClass='' (startup_wm_class e)
     @ [''Hidden='' @ bool_str (hidden e)]
     @ opt_line ''X-Env-Vars='' (env_vars e)"
  have tokens: "tokens = env_parts (env_vars e)"
    by (simp add: assms(2) env_parts_def)
  have ev: "''Exec='' @ exec_value e = line"
    by (simp add: exec_value_def assms(3) tokens)
  have "exec_value e \<noteq> []"
    using assms(1) by (simp add: exec_value_def)
  then have "opt_line ''Exec='' (if exec e = [] then [] else exec_value e) = [line]"
    using assms(1) ev by (simp add: opt_line_def)
  then have lines: "to_lines e = before @ [line] @ after"
    unfolding to_lines_eq before_def after_def by simp
  have ne: "before \<noteq> []" by (simp add: before_def)
  have "to_string e = concat (map (\<lambda>l. l @ ''\<newline>'') before)
      @ line @ ''\<newline>'' @ concat (map (\<lambda>l. l @ ''\<newline>'') after)"
    unfolding to_string_unlines lines by simp
  also have "concat (map (\<lambda>l. l @ ''\<newline>'') before) = join ''\<newline>'' before @ ''\<newline>''"
    using join_unlines [OF ne, of "''\<newline>''"] by simp
  finally have "to_string e = join ''\<newline>'' before
      @ ''\<newline>'' @ line @ ''\<newline>'' @ concat (map (\<lambda>l. l @ ''\<newline>'') after)"
    by simp
  then have in_text: "\<exists>pre post. to_string e = pre @ ''\<newline>'' @ line @ ''\<newline>'' @ post"
    by blast
  have mem: "line \<in> set (to_lines e)"
    unfolding lines by simp
  have ex: "env_vars e = ''FOO=1;BAR=2'' \<and> exec e = ''mycommand --flag''
          \<longrightarrow> line = ''Exec=env FOO=1 BAR=2 mycommand --flag''"
  proof
    assume a: "env_vars e = ''FOO=1;BAR=2'' \<and> exec e = ''mycommand --flag''"
    then have "tokens = [''FOO=1'', ''BAR=2'']"
      by (simp add: assms(2) str_defs)
    with a show "line = ''Exec=env FOO=1 BAR=2 mycommand --flag''"
      by (simp add: assms(3))
  qed
  from mem in_text ex show ?thesis by blast
qed

theorem to_string_exec_line_witness:
  "exec entry_env \<noteq> [] \<and> env_vars entry_env = ''FOO=1;BAR=2'' \<and> exec entry_env = ''mycommand --flag''
   \<and> map strip (filter (\<lambda>p. strip p \<noteq> []) (split_on (CHR '';'') (env_vars entry_env)))
       = [''FOO=1'', ''BAR=2'']
   \<and> ''Exec=env FOO=1 BAR=2 mycommand --flag'' \<in> set (to_lines entry_env)
   \<and> to_string entry_env = ''[Desktop Entry]\<newline>Type=Application\<newline>Name=App\<newline>Exec=env FOO=1 BAR=2 mycommand --flag\<newline>Terminal=false\<newline>Hidden=false\<newline>X-Env-Vars=FOO=1;BAR=2\<newline>''"
proof -
  have a: "env_vars entry_env = ''FOO=1;BAR=2''" and b: "exec entry_env = ''mycommand --flag''"
    and c: "exec entry_env \<noteq> []"
    by (simp_all add: entry_env_def)
  have t: "map strip (filter (\<lambda>p. strip p \<noteq> []) (split_on (CHR '';'') (env_vars entry_env)))
       = [''FOO=1'', ''BAR=2'']"
    by (simp add: a str_defs)
  have s: "to_string entry_env = ''[Desktop Entry]\<newline>Type=Application\<newline>Name=App\<newline>Exec=env FOO=1 BAR=2 mycommand --flag\<newline>Terminal=false\<newline>Hidden=false\<newline>X-Env-Vars=FOO=1;BAR=2\<newline>''"
    by (simp add: entry_env_def codec_defs str_defs)
  from to_string_exec_line [OF c refl refl] a b
  have "(if map strip (filter (\<lambda>p. strip p \<noteq> []) (split_on (CHR '';'') (env_vars entry_env))) \<noteq> []
         then ''Exec=env '' @ join '' '' (map strip (filter (\<lambda>p. strip p \<noteq> [])
                (split_on (CHR '';'') (env_vars entry_env)))) @ '' '' @ exec entry_env
         else ''Exec='' @ exec entry_env) \<in> set (to_lines entry_env)"
    by blast
  then have "''Exec=env FOO=1 BAR=2 mycommand --flag'' \<in> set (to_lines entry_env)"
    unfolding t by (simp add: b)
  with a b c t s show ?thesis by simp
qed

text \<open>
  An entry whose \<open>env_vars\<close> is not empty and holds no token: the Exec line is the
  plain command, without \<open>env\<close>.
\<close>

theorem to_string_blank_env_vars:
  "env_vars entry_blank_env \<noteq> []
   \<and> to_lines entry_blank_env = [''[Desktop Entry]'', ''Type=Application'', ''Name=App'',
        ''Exec=cmd'', ''Terminal=false'', ''Hidden=false'', ''X-Env-Vars= ; '']
   \<and> to_string entry_blank_env = ''[Desktop Entry]\<newline>Type=Application\<newline>Name=App\<newline>Exec=cmd\<newline>Terminal=false\<newline>Hidden=false\<newline>X-Env-Vars= ; \<newline>''"
  by (simp add: entry_blank_env_def codec_defs str_defs)

section \<open>The env prefix of the Exec line on load\<close>

lemma cmd_start_all: "\<forall>t\<in>set parts. CHR ''='' \<in> set t \<Longrightarrow> cmd_start parts i = 0"
  by (induction parts arbitrary: i) auto

lemma cmd_start_some:
  "\<exists>t\<in>set parts. CHR ''='' \<notin> set t \<Longrightarrow>
   cmd_start parts i = i + length (takeWhile (\<lambda>t. CHR ''='' \<in> set t) parts)"
  by (induction parts arbitrary: i) auto

lemma unwrap_exec_split:
  assumes "env \<noteq> []" and "startswith exec_cmd ''env ''"
  shows "unwrap_exec env exec_cmd =
     (if \<forall>t\<in>set (split_ws (drop 4 exec_cmd)). CHR ''='' \<in> set t
      then join '' '' (split_ws (drop 4 exec_cmd))
      else join '' '' (dropWhile (\<lambda>t. CHR ''='' \<in> set t) (split_ws (drop 4 exec_cmd))))"
proof -
  define parts where "parts = split_ws (drop 4 exec_cmd)"
  have unwrap: "unwrap_exec env exec_cmd = join '' '' (drop (cmd_start parts 0) parts)"
    using assms by (simp add: unwrap_exec_def Let_def parts_def)
  show ?thesis
  proof (cases "\<forall>t\<in>set parts. CHR ''='' \<in> set t")
    case True
    then have "cmd_start parts 0 = 0"
      by (rule cmd_start_all)
    with True unwrap show ?thesis
      unfolding parts_def by simp
  next
    case False
    then have "cmd_start parts 0 = length (takeWhile (\<lambda>t. CHR ''='' \<in> set t) parts)"
      using cmd_start_some [of parts 0] by simp
    then have "unwrap_exec env exec_cmd = join '' '' (dropWhile (\<lambda>t. CHR ''='' \<in> set t) parts)"
      using unwrap by (simp add: dropWhile_eq_drop)
    with False show ?thesis
      unfolding parts_def by (simp only: if_False)
  qed
qed

lemma unwrap_exec_command:
  assumes "env \<noteq> []" and "startswith exec_cmd ''env ''"
    and "split_ws (drop 4 exec_cmd) = kvs @ c # rest"
    and "\<forall>t\<in>set kvs. CHR ''='' \<in> set t" and "CHR ''='' \<notin> set c"
  shows "unwrap_exec env exec_cmd = join '' '' (c # rest)"
proof -
  have "dropWhile (\<lambda>t. CHR ''='' \<in> set t) (kvs @ c # rest) = c # rest"
    using assms(4,5) by (simp add: dropWhile_append3)
  moreover have "\<not> (\<forall>t\<in>set (kvs @ c # rest). CHR ''='' \<in> set t)"
    using assms(5) by auto
  ultimately show ?thesis
    unfolding unwrap_exec_split [OF assms(1,2)] assms(3) by (simp only: if_False)
qed

lemma exec_from_string:
  "exec (from_string content fp) =
     unwrap_exec (dict_get (parse_data content) ''X-Env-Vars'' [])
       (dict_get (parse_data content) ''Exec'' [])"
  by (simp add: from_string_def Let_def)

lemma env_vars_from_string:
  "env_vars (from_string content fp) = dict_get (parse_data content) ''X-Env-Vars'' []"
  by (simp add: from_string_def Let_def)

text \<open>
  Claim C10. For every text whose \<open>[Desktop Entry]\<close> section assigns a non-empty
  value to X-Env-Vars and to Exec a value that begins with \<open>env \<close>: if every
  white-space separated token after \<open>env \<close> contains an \<open>=\<close>, no token is dropped
  and the command of the parsed entry is all of them joined by single spaces;
  otherwise the leading tokens with an \<open>=\<close> are dropped and the rest is joined by
  single spaces. Either way the tokens are joined again by single spaces, so runs of
  white space collapse.
\<close>

theorem from_string_env_tokens:
  assumes "assigned_last (splitlines content) ''X-Env-Vars'' env" and "env \<noteq> []"
    and "assigned_last (splitlines content) ''Exec'' exec_cmd"
    and "startswith exec_cmd ''env ''"
  shows "exec (from_string content fp) =
     (if \<forall>t\<in>set (split_ws (drop 4 exec_cmd)). CHR ''='' \<in> set t
      then join '' '' (split_ws (drop 4 exec_cmd))
      else join '' '' (dropWhile (\<lambda>t. CHR ''='' \<in> set t) (split_ws (drop 4 exec_cmd))))"
  unfolding exec_from_string dict_get_assigned [OF assms(1)] dict_get_assigned [OF assms(3)]
  by (rule unwrap_exec_split [OF assms(2,4)])

lemma parse_data_text_env_tokens:
  "parse_data text_env_tokens = [''X-Env-Vars'' \<mapsto> ''FOO=1'', ''Exec'' \<mapsto> ''env A=1   B=2'']"
  by (simp add: text_env_tokens_def parse_data_def scan_line_def str_defs)

lemma parse_data_text_env_spaces:
  "parse_data text_env_spaces = [''X-Env-Vars'' \<mapsto> ''FOO=1'', ''Exec'' \<mapsto> ''env A=1  cmd   --x=1  y'']"
  by (simp add: text_env_spaces_def parse_data_def scan_line_def str_defs)

theorem from_string_env_tokens_witness:
  "assigned_last (splitlines text_env_tokens) ''X-Env-Vars'' ''FOO=1''
   \<and> assigned_last (splitlines text_env_tokens) ''Exec'' ''env A=1   B=2''
   \<and> startswith ''env A=1   B=2'' ''env ''
   \<and> exec (from_string text_env_tokens None) = ''A=1 B=2''
   \<and> assigned_last (splitlines text_env_spaces) ''Exec'' ''env A=1  cmd   --x=1  y''
   \<and> exec (from_string text_env_spaces None) = ''cmd --x=1 y''"
proof -
  have a: "assigned_last (splitlines text_env_tokens) ''X-Env-Vars'' ''FOO=1''"
    and b: "assigned_last (splitlines text_env_tokens) ''Exec'' ''env A=1   B=2''"
    by (simp_all add: parse_data_Some [symmetric] parse_data_text_env_tokens)
  have c: "assigned_last (splitlines text_env_spaces) ''X-Env-Vars'' ''FOO=1''"
    and d: "assigned_last (splitlines text_env_spaces) ''Exec'' ''env A=1  cmd   --x=1  y''"
    by (simp_all add: parse_data_Some [symmetric] parse_data_text_env_spaces)
  have n: "(''FOO=1'' :: string) \<noteq> []" by simp
  have s1: "startswith ''env A=1   B=2'' ''env ''"
    and s2: "startswith ''env A=1  cmd   --x=1  y'' ''env ''"
    by (simp_all add: startswith_def)
  have 1: "exec (from_string text_env_tokens None) = ''A=1 B=2''"
    using from_string_env_tokens [OF a n b s1, of None] by (simp add: str_defs)
  have 2: "exec (from_string text_env_spaces None) = ''cmd --x=1 y''"
    using from_string_env_tokens [OF c n d s2, of None] by (simp add: str_defs)
  from a b s1 d 1 2 show ?thesis by simp
qed

section \<open>Defaults of the parser\<close>

lemma unwrap_exec_Nil [simp]: "unwrap_exec env [] = []"
  by (simp add: unwrap_exec_def startswith_def)

lemma dict_get_None: "d k = None \<Longrightarrow> dict_get d k dflt = dflt"
  by (simp add: dict_get_def)

lemma lower_dict_get_true:
  "(lower (dict_get d k []) = ''true'') = (\<exists>v. d k = Some v \<and> lower v = ''true'')"
  by (cases "d k") (simp_all add: dict_get_def lower_def)

text \<open>
  Claim C4. \<open>from_string\<close> returns an entry for every text: it is a total function,
  since no operation it applies to a string can raise. For the lines \<open>ls\<close> of a text
  and the entry \<open>e\<close> parsed from it: a field whose key is never assigned in the
  \<open>[Desktop Entry]\<close> section has its default (\<open>Unnamed\<close> for Name, \<open>Application\<close>
  for Type, the empty string for every other text field), and a field whose key is
  assigned there has the value assigned last; \<open>terminal\<close> and \<open>hidden\<close> are true
  exactly when the value assigned to the key is \<open>true\<close> up to case; and a text
  without a \<open>[Desktop Entry]\<close> header gives the entry that has every default.
\<close>

theorem from_string_defaults:
  assumes "ls = splitlines content" and "e = from_string content fp"
  shows "parsed_field ls ''Name'' ''Unnamed'' (name e)
   \<and> parsed_field ls ''Type'' ''Application'' (entry_type e)
   \<and> terminal e = (\<exists>v. assigned_last ls ''Terminal'' v \<and> lower v = ''true'')
   \<and> hidden e = (\<exists>v. assigned_last ls ''Hidden'' v \<and> lower v = ''true'')
   \<and> (never_assigned ls ''Exec'' \<longrightarrow> exec e = [])
   \<and> parsed_field ls ''Comment'' [] (comment e)
   \<and> parsed_field ls ''Icon'' [] (icon e)
   \<and> parsed_field ls ''Path'' [] (path e)
   \<and> parsed_field ls ''Categories'' [] (categories e)
   \<and> parsed_field ls ''Keywords'' [] (keywords' e)
   \<and> parsed_field ls ''URL'' [] (url e)
   \<and> parsed_field ls ''MimeType'' [] (mime_type e)
   \<and> parsed_field ls ''X-Env-Vars'' [] (env_vars e)
   \<and> parsed_field ls ''StartupWMClass'' [] (startup_wm_class e)
   \<and> file_path e = fp
   \<and> ((\<forall>l\<in>set ls. strip l \<noteq> ''[Desktop Entry]'') \<longrightarrow>
        e = \<lparr> name = ''Unnamed'', exec = [], entry_type = ''Application'',
              comment = [], icon = [], path = [], terminal = False, categories = [],
              keywords' = [], url = [], mime_type = [], hidden = False, env_vars = [],
              startup_wm_class = [], file_path = fp \<rparr>)"
proof -
  have t: "terminal e = (\<exists>v. assigned_last ls ''Terminal'' v \<and> lower v = ''true'')"
    unfolding assms by (simp add: from_string_def Let_def lower_dict_get_true parse_data_Some)
  have h: "hidden e = (\<exists>v. assigned_last ls ''Hidden'' v \<and> lower v = ''true'')"
    unfolding assms by (simp add: from_string_def Let_def lower_dict_get_true parse_data_Some)
  have x: "never_assigned ls ''Exec'' \<longrightarrow> exec e = []"
    unfolding assms by (simp add: exec_from_string dict_get_never)
  have d: "(\<forall>l\<in>set ls. strip l \<noteq> ''[Desktop Entry]'') \<longrightarrow>
        e = \<lparr> name = ''Unnamed'', exec = [], entry_type = ''Application'',
              comment = [], icon = [], path = [], terminal = False, categories = [],
              keywords' = [], url = [], mime_type = [], hidden = False, env_vars = [],
              startup_wm_class = [], file_path = fp \<rparr>"
  proof
    assume "\<forall>l\<in>set ls. strip l \<noteq> ''[Desktop Entry]''"
    then have "\<And>k. never_assigned (splitlines content) k"
      unfolding assms by (rule no_header_never_assigned)
    then have "\<And>k dflt. dict_get (parse_data content) k dflt = dflt"
      by (rule dict_get_never)
    then show "e = \<lparr> name = ''Unnamed'', exec = [], entry_type = ''Application'',
              comment = [], icon = [], path = [], terminal = False, categories = [],
              keywords' = [], url = [], mime_type = [], hidden = False, env_vars = [],
              startup_wm_class = [], file_path = fp \<rparr>"
      unfolding assms by (simp add: from_string_def Let_def lower_def)
  qed
  have f: "\<And>k dflt. parsed_field ls k dflt (dict_get (parse_data content) k dflt)"
    unfolding assms by (rule dict_get_parse_data)
  have sel: "name e = dict_get (parse_data content) ''Name'' ''Unnamed''"
    "entry_type e = dict_get (parse_data content) ''Type'' ''Application''"
    "comment e = dict_get (parse_data content) ''Comment'' []"
    "icon e = dict_get (parse_data content) ''Icon'' []"
    "path e = dict_get (parse_data content) ''Path'' []"
    "categories e = dict_get (parse_data content) ''Categories'' []"
    "keywords' e = dict_get (parse_data content) ''Keywords'' []"
    "url e = dict_get (parse_data content) ''URL'' []"
    "mime_type e = dict_get (parse_data content) ''MimeType'' []"
    "env_vars e = dict_get (parse_data content) ''X-Env-Vars'' []"
    "startup_wm_class e = dict_get (parse_data content) ''StartupWMClass'' []"
    "file_path e = fp"
    unfolding assms by (simp_all add: from_string_def Let_def)
  show ?thesis
    unfolding sel using t h x d f by (simp only: simp_thms)
qed

lemma parse_data_text_defaults:
  "parse_data text_defaults = [''Terminal'' \<mapsto> ''TRUE'', ''Hidden'' \<mapsto> ''yes'']"
  by (simp add: text_defaults_def parse_data_def scan_line_def str_defs)

theorem from_string_defaults_witness:
  "''Name=Outside'' \<in> set (splitlines text_defaults)
   \<and> never_assigned (splitlines text_defaults) ''Name''
   \<and> never_assigned (splitlines text_defaults) ''Exec''
   \<and> assigned_last (splitlines text_defaults) ''Terminal'' ''TRUE''
   \<and> assigned_last (splitlines text_defaults) ''Hidden'' ''yes''
   \<and> name (from_string text_defaults None) = ''Unnamed''
   \<and> exec (from_string text_defaults None) = []
   \<and> terminal (from_string text_defaults None)
   \<and> from_string text_no_section None =
        \<lparr> name = ''Unnamed'', exec = [], entry_type = ''Application'',
          comment = [], icon = [], path = [], terminal = False, categories = [],
          keywords' = [], url = [], mime_type = [], hidden = False, env_vars = [],
          startup_wm_class = [], file_path = None \<rparr>"
proof -
  have n: "never_assigned (splitlines text_defaults) ''Name''"
    and x: "never_assigned (splitlines text_defaults) ''Exec''"
    by (simp_all add: parse_data_None [symmetric] parse_data_text_defaults)
  have t: "assigned_last (splitlines text_defaults) ''Terminal'' ''TRUE''"
    and h: "assigned_last (splitlines text_defaults) ''Hidden'' ''yes''"
    by (simp_all add: parse_data_Some [symmetric] parse_data_text_defaults)
  have l: "lower ''TRUE'' = ''true''"
    by (simp add: lower_def lower_char_def char_of_def bit_Suc_0_iff)
  have o: "''Name=Outside'' \<in> set (splitlines text_defaults)"
    by (simp add: text_defaults_def str_defs)
  note d = from_string_defaults [OF refl refl, of text_defaults None]
  from d n have 1: "name (from_string text_defaults None) = ''Unnamed''"
    by (simp add: parsed_field_def)
  from d x have 2: "exec (from_string text_defaults None) = []"
    by blast
  from d t l have 3: "terminal (from_string text_defaults None)"
    by blast
  have "\<forall>l\<in>set (splitlines text_no_section). strip l \<noteq> ''[Desktop Entry]''"
    by (simp add: text_no_section_def str_defs)
  with from_string_defaults [OF refl refl, of "text_no_section" None]
  have 4: "from_string text_no_section None =
        \<lparr> name = ''Unnamed'', exec = [], entry_type = ''Application'',
          comment = [], icon = [], path = [], terminal = False, categories = [],
          keywords' = [], url = [], mime_type = [], hidden = False, env_vars = [],
          startup_wm_class = [], file_path = None \<rparr>"
    by blast
  from o n x t h 1 2 3 4 show ?thesis by simp
qed

section \<open>The worked example of the env prefix\<close>

text \<open>
  Claim C2, as amended. For every text whose \<open>[Desktop Entry]\<close> section assigns
  \<open>env FOO=1 BAR=2 mycommand --flag\<close> to Exec and \<open>FOO=1;BAR=2\<close> to X-Env-Vars (the
  value assigned last, when a key is assigned more than once), the parsed entry has
  the command \<open>mycommand --flag\<close> and the variables \<open>FOO=1;BAR=2\<close>. In general, when
  the section assigns a non-empty value to X-Env-Vars and to Exec a value that begins
  with \<open>env \<close>, and the white-space separated tokens after \<open>env \<close> are tokens with
  an \<open>=\<close> followed by a token without one, the command of the parsed entry is that
  token and those after it, joined by single spaces.
\<close>

theorem from_string_env_prefix:
  "(assigned_last (splitlines content) ''Exec'' ''env FOO=1 BAR=2 mycommand --flag''
      \<and> assigned_last (splitlines content) ''X-Env-Vars'' ''FOO=1;BAR=2''
    \<longrightarrow> exec (from_string content fp) = ''mycommand --flag''
        \<and> env_vars (from_string content fp) = ''FOO=1;BAR=2'')
   \<and> (\<forall>env exec_cmd kvs c rest.
         assigned_last (splitlines content) ''X-Env-Vars'' env \<and> env \<noteq> []
         \<and> assigned_last (splitlines content) ''Exec'' exec_cmd
         \<and> startswith exec_cmd ''env ''
         \<and> split_ws (drop 4 exec_cmd) = kvs @ c # rest
         \<and> (\<forall>t\<in>set kvs. CHR ''='' \<in> set t) \<and> CHR ''='' \<notin> set c
       \<longrightarrow> exec (from_string content fp) = join '' '' (c # rest)
           \<and> env_vars (from_string content fp) = env)"
proof (intro conjI allI impI)
  assume a: "assigned_last (splitlines content) ''Exec'' ''env FOO=1 BAR=2 mycommand --flag''
      \<and> assigned_last (splitlines content) ''X-Env-Vars'' ''FOO=1;BAR=2''"
  then have x: "dict_get (parse_data content) ''Exec'' [] = ''env FOO=1 BAR=2 mycommand --flag''"
    and v: "dict_get (parse_data content) ''X-Env-Vars'' [] = ''FOO=1;BAR=2''"
    by (simp_all add: dict_get_assigned [of content])
  have "unwrap_exec ''FOO=1;BAR=2'' ''env FOO=1 BAR=2 mycommand --flag'' = ''mycommand --flag''"
    by (simp add: unwrap_exec_def Let_def str_defs)
  then show "exec (from_string content fp) = ''mycommand --flag''"
    by (simp add: exec_from_string x v)
  show "env_vars (from_string content fp) = ''FOO=1;BAR=2''"
    by (simp add: env_vars_from_string v)
next
  fix env exec_cmd kvs c rest
  assume a: "assigned_last (splitlines content) ''X-Env-Vars'' env \<and> env \<noteq> []
         \<and> assigned_last (splitlines content) ''Exec'' exec_cmd
         \<and> startswith exec_cmd ''env ''
         \<and> split_ws (drop 4 exec_cmd) = kvs @ c # rest
         \<and> (\<forall>t\<in>set kvs. CHR ''='' \<in> set t) \<and> CHR ''='' \<notin> set c"
  then have x: "dict_get (parse_data content) ''Exec'' [] = exec_cmd"
    and v: "dict_get (parse_data content) ''X-Env-Vars'' [] = env"
    by (simp_all add: dict_get_assigned [of content])
  from a have "env \<noteq> []" and "startswith exec_cmd ''env ''"
    and "split_ws (drop 4 exec_cmd) = kvs @ c # rest"
    and "\<forall>t\<in>set kvs. CHR ''='' \<in> set t" and "CHR ''='' \<notin> set c"
    by blast+
  then have "unwrap_exec env exec_cmd = join '' '' (c # rest)"
    by (rule unwrap_exec_command)
  then show "exec (from_string content fp) = join '' '' (c # rest)"
    by (simp add: exec_from_string x v)
  show "env_vars (from_string content fp) = env"
    by (simp add: env_vars_from_string v)
qed

lemma parse_data_text_env:
  "parse_data text_env = [''Name'' \<mapsto> ''App'', ''Exec'' \<mapsto> ''env FOO=1 BAR=2 mycommand --flag'',
     ''X-Env-Vars'' \<mapsto> ''FOO=1;BAR=2'']"
  by (simp add: text_env_def parse_data_def scan_line_def str_defs)

theorem from_string_env_prefix_witness:
  "assigned_last (splitlines text_env) ''Exec'' ''env FOO=1 BAR=2 mycommand --flag''
   \<and> assigned_last (splitlines text_env) ''X-Env-Vars'' ''FOO=1;BAR=2''
   \<and> startswith ''env FOO=1 BAR=2 mycommand --flag'' ''env ''
   \<and> split_ws (drop 4 ''env FOO=1 BAR=2 mycommand --flag'') = [''FOO=1'', ''BAR=2''] @ ''mycommand'' # [''--flag'']
   \<and> exec (from_string text_env None) = ''mycommand --flag''
   \<and> exec (from_string text_env None) = join '' '' [''mycommand'', ''--flag'']
   \<and> env_vars (from_string text_env None) = ''FOO=1;BAR=2''"
proof -
  have a: "assigned_last (splitlines text_env) ''Exec'' ''env FOO=1 BAR=2 mycommand --flag''"
    and b: "assigned_last (splitlines text_env) ''X-Env-Vars'' ''FOO=1;BAR=2''"
    by (simp_all add: parse_data_Some [symmetric] parse_data_text_env)
  have c: "startswith ''env FOO=1 BAR=2 mycommand --flag'' ''env ''"
    by (simp add: startswith_def)
  have d: "split_ws (drop 4 ''env FOO=1 BAR=2 mycommand --flag'')
      = [''FOO=1'', ''BAR=2''] @ ''mycommand'' # [''--flag'']"
    by (simp add: str_defs)
  have e: "(\<forall>t\<in>set [''FOO=1'', ''BAR=2'']. CHR ''='' \<in> set t) \<and> CHR ''='' \<notin> set ''mycommand''"
    by simp
  have f: "(''FOO=1;BAR=2'' :: string) \<noteq> []"
    by simp
  from from_string_env_prefix [of text_env None] a b
  have 1: "exec (from_string text_env None) = ''mycommand --flag''
        \<and> env_vars (from_string text_env None) = ''FOO=1;BAR=2''"
    by blast
  from from_string_env_prefix [of text_env None] a b c d e f
  have 2: "exec (from_string text_env None) = join '' '' (''mycommand'' # [''--flag''])"
    by blast
  from a b c d 1 2 show ?thesis by simp
qed

text \<open>
  A text whose section holds both lines of the example and then assigns Exec again:
  the later assignment overwrites the earlier one, and the command is \<open>other\<close>.
\<close>

theorem from_string_env_overwritten:
  "splitlines text_env_twice ! 1 = ''Exec=env FOO=1 BAR=2 mycommand --flag''
   \<and> in_scope (splitlines text_env_twice) 1
   \<and> splitlines text_env_twice ! 2 = ''X-Env-Vars=FOO=1;BAR=2''
   \<and> in_scope (splitlines text_env_twice) 2
   \<and> exec (from_string text_env_twice None) = ''other''
   \<and> exec (from_string text_env_twice None) \<noteq> ''mycommand --flag''"
proof -
  have ls: "splitlines text_env_twice = [''[Desktop Entry]'', ''Exec=env FOO=1 BAR=2 mycommand --flag'',
      ''X-Env-Vars=FOO=1;BAR=2'', ''Exec=other'']"
    by (simp add: text_env_twice_def str_defs)
  have "0 < (1::nat) \<and> strip ([''[Desktop Entry]'', ''Exec=env FOO=1 BAR=2 mycommand --flag'',
      ''X-Env-Vars=FOO=1;BAR=2'', ''Exec=other''] ! 0) = ''[Desktop Entry]''"
    by (simp add: str_defs)
  then have s1: "in_scope (splitlines text_env_twice) 1"
    unfolding ls in_scope_def by (intro exI [of _ 0]) simp
  have "\<not> is_section_header ''Exec=env FOO=1 BAR=2 mycommand --flag''"
    by (simp add: is_section_header_def str_defs)
  then have s2: "in_scope (splitlines text_env_twice) 2"
    unfolding ls in_scope_def
    by (intro exI [of _ 0]) (simp add: str_defs less_Suc_eq numeral_2_eq_2)
  have "exec (from_string text_env_twice None) = ''other''"
    by (simp add: text_env_twice_def from_string_def parse_data_def scan_line_def unwrap_exec_def str_defs)
  with s1 s2 show ?thesis
    by (simp add: ls)
qed

section \<open>The order of the serialized lines\<close>








section \<open>Enumerating the descriptor files\<close>

lemmas path_defs = parse_path_def str_path_def path_join_def path_name_def path_parent_def
  get_user_applications_dir_def get_system_applications_dir_def

lemmas path_error_defs = path_error_def str_path_def encoded_length_def NAME_MAX_def PATH_MAX_def

lemma user_dir_home_u:
  "get_user_applications_dir home_u = Path ''/'' [''home'', ''u'', ''.local'', ''share'', ''applications'']"
  by (simp add: home_u_def path_defs)

lemma system_dir_eq:
  "get_system_applications_dir = Path ''/'' [''usr'', ''share'', ''applications'']"
  by (simp add: path_defs)

lemma walk_cong:
  assumes "map_of (nodes fs') = map_of (nodes fs)" and "unsearchable fs' = unsearchable fs"
  shows "walk fs' r pre xs = walk fs r pre xs"
proof (induction xs arbitrary: pre)
  case Nil
  then show ?case by simp
next
  case (Cons x xs)
  then show ?case
    by (simp add: assms split: option.splits node.splits)
qed

lemma path_error_cong:
  assumes "map_of (nodes fs') = map_of (nodes fs)" and "unsearchable fs' = unsearchable fs"
  shows "path_error fs' p = path_error fs p"
  unfolding path_error_def walk_cong [OF assms] ..

text \<open>
  \<open>exists\<close> returns, and raises nothing, on a file system where every directory may
  be searched, for a path that is not too long.
\<close>

lemma walk_no_permission:
  assumes "unsearchable fs = {}" and "\<forall>x\<in>set xs. encoded_length x \<le> NAME_MAX"
  shows "walk fs r pre xs \<in> {None, Some FileNotFoundError, Some NotADirectoryError}"
  using assms(2)
proof (induction xs arbitrary: pre)
  case Nil
  then show ?case by simp
next
  case (Cons x xs)
  then show ?case
    by (simp add: assms(1) split: option.splits node.splits)
qed

lemma exists_returns:
  assumes "unsearchable fs = {}" and "\<forall>x\<in>set (path_parts p). encoded_length x \<le> NAME_MAX"
    and "encoded_length (str_path p) < PATH_MAX"
  shows "\<exists>b. exists fs p = Inr b"
  using walk_no_permission [OF assms(1,2), of "path_root p" "[]"] assms(3)
  by (auto simp: exists_def path_error_def split: option.splits)

text \<open>
  The list does not depend on the order of the listing when, within each of the two
  directories, the lowercased names of the descriptor files are distinct. (Files of
  one directory whose names differ only in case keep the order of the listing: the
  sort is stable.)
\<close>

lemma filter_key_le_one:
  assumes "distinct (map f xs)"
  shows "length (filter (\<lambda>y. f y = k) xs) \<le> 1"
  using assms
proof (induction xs)
  case Nil
  then show ?case by simp
next
  case (Cons x xs)
  show ?case
  proof (cases "f x = k")
    case True
    with Cons.prems have "filter (\<lambda>y. f y = k) xs = []"
      by (force simp: filter_empty_conv image_iff)
    with True show ?thesis by simp
  next
    case False
    with Cons show ?thesis by simp
  qed
qed

lemma mset_eq_short:
  assumes "mset xs = mset ys" and "length xs \<le> 1"
  shows "xs = ys"
proof (cases xs)
  case Nil
  with assms show ?thesis by simp
next
  case (Cons a as)
  with assms(2) have "xs = [a]" by simp
  with assms(1) show ?thesis by (metis mset_single_iff_right mset.simps(1) mset.simps(2))
qed

lemma filter_key_perm:
  assumes "mset xs = mset ys" and "distinct (map f xs)"
  shows "filter (\<lambda>y. f y = k) xs = filter (\<lambda>y. f y = k) ys"
proof -
  have "mset (filter (\<lambda>y. f y = k) xs) = mset (filter (\<lambda>y. f y = k) ys)"
    using assms(1) by simp
  then show ?thesis
    using filter_key_le_one [OF assms(2), of k] by (rule mset_eq_short)
qed

lemma sort_key_eq_if_filters:
  assumes "mset xs = mset ys"
    and "\<And>k. filter (\<lambda>y. f y = k) xs = filter (\<lambda>y. f y = k) ys"
  shows "sort_key f xs = sort_key f ys"
proof (rule properties_for_sort_key)
  show "mset (sort_key f ys) = mset xs"
    using assms(1) by simp
  show "sorted (map f (sort_key f ys))"
    by simp
  fix k
  have "filter (\<lambda>x. f x = f k) (sort_key f ys) = filter (\<lambda>x. f x = f k) ys"
    by (rule sort_key_stable)
  also have "\<dots> = filter (\<lambda>x. f x = f k) xs"
    using assms(2) [of "f k"] by simp
  finally show "filter (\<lambda>x. f k = f x) (sort_key f ys) = filter (\<lambda>x. f k = f x) xs"
    by (simp add: eq_commute)
qed

lemma glob_perm:
  assumes "mset listing = mset (nodes fs)" and "distinct (map fst (nodes fs))"
  shows "map_of listing = map_of (nodes fs)"
    and "mset (glob (fs\<lparr>nodes := listing\<rparr>) d suffix) = mset (glob fs d suffix)"
proof -
  have "mset (map fst listing) = mset (map fst (nodes fs))"
    using assms(1) by simp
  then have "distinct (map fst listing)"
    using assms(2) mset_eq_imp_distinct_iff by blast
  moreover have "set listing = set (nodes fs)"
    using assms(1) by (rule mset_eq_setD)
  ultimately show m: "map_of listing = map_of (nodes fs)"
    using assms(2) map_of_inject_set by blast
  then have "is_dir (fs\<lparr>nodes := listing\<rparr>) d = is_dir fs d"
    by (simp add: is_dir_def)
  moreover have "mset (map fst listing) = mset (map fst (nodes fs))"
    using assms(1) by simp
  ultimately show "mset (glob (fs\<lparr>nodes := listing\<rparr>) d suffix) = mset (glob fs d suffix)"
    by (simp add: glob_def del: mset_map)
qed

lemma get_all_desktop_files_eq:
  assumes "exists fs (get_user_applications_dir home) = Inr user_exists"
    and "exists fs get_system_applications_dir = Inr system_exists"
  shows "get_all_desktop_files fs home =
     Inr (sort_key sort_name
           ((if user_exists
             then map (\<lambda>f. (f, True)) (glob fs (get_user_applications_dir home) ''.desktop'')
             else [])
            @ (if system_exists
               then map (\<lambda>f. (f, False)) (glob fs get_system_applications_dir ''.desktop'')
               else [])))"
  using assms by (simp add: get_all_desktop_files_def Let_def)

lemma get_all_desktop_files_order_independent:
  assumes "exists fs (get_user_applications_dir home) = Inr user_exists"
    and "exists fs get_system_applications_dir = Inr system_exists"
    and "mset listing = mset (nodes fs)" and "distinct (map fst (nodes fs))"
    and "distinct (map (\<lambda>p. lower (path_name p)) (glob fs (get_user_applications_dir home) ''.desktop''))"
    and "distinct (map (\<lambda>p. lower (path_name p)) (glob fs get_system_applications_dir ''.desktop''))"
  shows "get_all_desktop_files (fs\<lparr>nodes := listing\<rparr>) home = get_all_desktop_files fs home"
proof -
  define U where "U fs = (if user_exists
      then map (\<lambda>f. (f, True)) (glob fs (get_user_applications_dir home) ''.desktop'') else [])" for fs
  define S where "S fs = (if system_exists
      then map (\<lambda>f. (f, False)) (glob fs get_system_applications_dir ''.desktop'') else [])" for fs
  note perm = glob_perm [OF assms(3,4)]
  have "path_error (fs\<lparr>nodes := listing\<rparr>) d = path_error fs d" for d
    by (rule path_error_cong) (simp_all add: perm(1))
  then have ex: "exists (fs\<lparr>nodes := listing\<rparr>) d = exists fs d" for d
    by (simp add: exists_def perm(1) split: option.splits)
  have a: "get_all_desktop_files fs home = Inr (sort_key sort_name (U fs @ S fs))"
    unfolding U_def S_def using assms(1,2) by (rule get_all_desktop_files_eq)
  have b: "get_all_desktop_files (fs\<lparr>nodes := listing\<rparr>) home
      = Inr (sort_key sort_name (U (fs\<lparr>nodes := listing\<rparr>) @ S (fs\<lparr>nodes := listing\<rparr>)))"
    unfolding U_def S_def by (rule get_all_desktop_files_eq) (simp_all add: ex assms(1,2))
  have mU: "mset (U (fs\<lparr>nodes := listing\<rparr>)) = mset (U fs)"
    and mS: "mset (S (fs\<lparr>nodes := listing\<rparr>)) = mset (S fs)"
    by (simp_all add: U_def S_def perm(2))
  have dU: "distinct (map sort_name (U fs))" and dS: "distinct (map sort_name (S fs))"
    using assms(5,6) by (simp_all add: U_def S_def sort_name_def comp_def)
  have "filter (\<lambda>y. sort_name y = k) (U (fs\<lparr>nodes := listing\<rparr>) @ S (fs\<lparr>nodes := listing\<rparr>))
      = filter (\<lambda>y. sort_name y = k) (U fs @ S fs)" for k
    using filter_key_perm [OF mU [symmetric] dU, of k] filter_key_perm [OF mS [symmetric] dS, of k]
    by simp
  moreover have "mset (U (fs\<lparr>nodes := listing\<rparr>) @ S (fs\<lparr>nodes := listing\<rparr>)) = mset (U fs @ S fs)"
    using mU mS by simp
  ultimately have "sort_key sort_name (U (fs\<lparr>nodes := listing\<rparr>) @ S (fs\<lparr>nodes := listing\<rparr>))
      = sort_key sort_name (U fs @ S fs)"
    by (intro sort_key_eq_if_filters)
  then show ?thesis
    by (simp add: a b)
qed

text \<open>
  Claim C7, as amended. When \<open>exists\<close> raises for neither of the two application
  directories, \<open>get_all_desktop_files\<close> returns the files with the suffix \<open>.desktop\<close>
  of the user applications directory, flagged \<open>True\<close>, together with those of the
  system applications directory, flagged \<open>False\<close>; the result is sorted by the
  lowercased file name; and it is the same for every order in which the file system
  lists its nodes, as long as no two descriptor files of one directory have the same
  lowercased name. A directory that does not exist contributes nothing.
\<close>

theorem get_all_desktop_files_sorted_union:
  assumes "exists fs (get_user_applications_dir home) = Inr user_exists"
    and "exists fs get_system_applications_dir = Inr system_exists"
  shows "\<exists>files. get_all_desktop_files fs home = Inr files
     \<and> mset files =
         mset (map (\<lambda>f. (f, True))
                (if user_exists then glob fs (get_user_applications_dir home) ''.desktop'' else []))
         + mset (map (\<lambda>f. (f, False))
                (if system_exists then glob fs get_system_applications_dir ''.desktop'' else []))
     \<and> sorted (map (\<lambda>x. lower (path_name (fst x))) files)
     \<and> (\<forall>listing.
           mset listing = mset (nodes fs) \<and> distinct (map fst (nodes fs))
           \<and> distinct (map (\<lambda>p. lower (path_name p))
                 (glob fs (get_user_applications_dir home) ''.desktop''))
           \<and> distinct (map (\<lambda>p. lower (path_name p))
                 (glob fs get_system_applications_dir ''.desktop''))
         \<longrightarrow> get_all_desktop_files (fs\<lparr>nodes := listing\<rparr>) home = Inr files)"
proof -
  define files where "files = sort_key sort_name
     ((if user_exists
       then map (\<lambda>f. (f, True)) (glob fs (get_user_applications_dir home) ''.desktop'')
       else [])
      @ (if system_exists
         then map (\<lambda>f. (f, False)) (glob fs get_system_applications_dir ''.desktop'')
         else []))"
  have r: "get_all_desktop_files fs home = Inr files"
    unfolding files_def using assms by (rule get_all_desktop_files_eq)
  have m: "mset files =
         mset (map (\<lambda>f. (f, True))
                (if user_exists then glob fs (get_user_applications_dir home) ''.desktop'' else []))
         + mset (map (\<lambda>f. (f, False))
                (if system_exists then glob fs get_system_applications_dir ''.desktop'' else []))"
    by (simp add: files_def)
  have "sorted (map sort_name files)"
    by (simp add: files_def)
  moreover have "sort_name = (\<lambda>x. lower (path_name (fst x)))"
    by (rule ext) (simp add: sort_name_def)
  ultimately have s: "sorted (map (\<lambda>x. lower (path_name (fst x))) files)"
    by simp
  have o: "get_all_desktop_files (fs\<lparr>nodes := listing\<rparr>) home = Inr files"
    if "mset listing = mset (nodes fs) \<and> distinct (map fst (nodes fs))
           \<and> distinct (map (\<lambda>p. lower (path_name p))
                 (glob fs (get_user_applications_dir home) ''.desktop''))
           \<and> distinct (map (\<lambda>p. lower (path_name p))
                 (glob fs get_system_applications_dir ''.desktop''))" for listing
    using get_all_desktop_files_order_independent [OF assms, of listing] that r by simp
  from r m s o show ?thesis by blast
qed

lemma exists_fs_two_dirs:
  "exists fs_two_dirs (get_user_applications_dir home_u) = Inr True"
  "exists fs_two_dirs get_system_applications_dir = Inr True"
  by (simp_all add: user_dir_home_u system_dir_eq exists_def path_error_defs
      fs_two_dirs_def parse_path_def)

lemma glob_fs_two_dirs:
  "glob fs_two_dirs (get_user_applications_dir home_u) ''.desktop'' =
     [parse_path ''/home/u/.local/share/applications/B.desktop'',
      parse_path ''/home/u/.local/share/applications/a.desktop'']"
  "glob fs_two_dirs get_system_applications_dir ''.desktop'' =
     [parse_path ''/usr/share/applications/c.desktop'']"
  by (simp_all add: user_dir_home_u system_dir_eq fs_two_dirs_def glob_def is_dir_def
      parse_path_def path_name_def path_parent_def startswith_def endswith_def)

lemma files_fs_two_dirs:
  "get_all_desktop_files fs_two_dirs home_u =
     Inr [(parse_path ''/home/u/.local/share/applications/a.desktop'', True),
          (parse_path ''/home/u/.local/share/applications/B.desktop'', True),
          (parse_path ''/usr/share/applications/c.desktop'', False)]"
  unfolding get_all_desktop_files_eq [OF exists_fs_two_dirs] glob_fs_two_dirs
  by (simp add: parse_path_def path_name_def sort_name_def lower_def lower_char_def
      char_of_def bit_Suc_0_iff less_eq_char_def less_char_def)

theorem get_all_desktop_files_sorted_union_witness:
  "exists fs_two_dirs (get_user_applications_dir home_u) = Inr True
   \<and> exists fs_two_dirs get_system_applications_dir = Inr True
   \<and> get_all_desktop_files fs_two_dirs home_u =
       Inr [(parse_path ''/home/u/.local/share/applications/a.desktop'', True),
            (parse_path ''/home/u/.local/share/applications/B.desktop'', True),
            (parse_path ''/usr/share/applications/c.desktop'', False)]
   \<and> sorted (map (\<lambda>x. lower (path_name (fst x)))
        [(parse_path ''/home/u/.local/share/applications/a.desktop'', True),
         (parse_path ''/home/u/.local/share/applications/B.desktop'', True),
         (parse_path ''/usr/share/applications/c.desktop'', False)])
   \<and> \<not> sorted (map (\<lambda>x. path_name (fst x))
        [(parse_path ''/home/u/.local/share/applications/a.desktop'', True),
         (parse_path ''/home/u/.local/share/applications/B.desktop'', True),
         (parse_path ''/usr/share/applications/c.desktop'', False)])
   \<and> get_all_desktop_files (fs_two_dirs\<lparr>nodes := rev (nodes fs_two_dirs)\<rparr>) home_u =
       get_all_desktop_files fs_two_dirs home_u"
proof -
  note t = get_all_desktop_files_sorted_union [OF exists_fs_two_dirs]
  from t files_fs_two_dirs
  have s: "sorted (map (\<lambda>x. lower (path_name (fst x)))
        [(parse_path ''/home/u/.local/share/applications/a.desktop'', True),
         (parse_path ''/home/u/.local/share/applications/B.desktop'', True),
         (parse_path ''/usr/share/applications/c.desktop'', False)])"
    by auto
  have n: "\<not> sorted (map (\<lambda>x. path_name (fst x))
        [(parse_path ''/home/u/.local/share/applications/a.desktop'', True),
         (parse_path ''/home/u/.local/share/applications/B.desktop'', True),
         (parse_path ''/usr/share/applications/c.desktop'', False)])"
    by (simp add: parse_path_def path_name_def less_eq_char_def less_char_def)
  have d1: "distinct (map fst (nodes fs_two_dirs))"
    by (simp add: fs_two_dirs_def parse_path_def)
  have d2: "distinct (map (\<lambda>p. lower (path_name p))
      (glob fs_two_dirs (get_user_applications_dir home_u) ''.desktop''))"
    unfolding glob_fs_two_dirs
    by (simp add: parse_path_def path_name_def lower_def lower_char_def char_of_def bit_Suc_0_iff)
  have d3: "distinct (map (\<lambda>p. lower (path_name p))
      (glob fs_two_dirs get_system_applications_dir ''.desktop''))"
    unfolding glob_fs_two_dirs by simp
  have "mset (rev (nodes fs_two_dirs)) = mset (nodes fs_two_dirs)"
    by simp
  with t d1 d2 d3 files_fs_two_dirs
  have o: "get_all_desktop_files (fs_two_dirs\<lparr>nodes := rev (nodes fs_two_dirs)\<rparr>) home_u =
       get_all_desktop_files fs_two_dirs home_u"
    by auto
  from exists_fs_two_dirs files_fs_two_dirs s n o show ?thesis
    by simp
qed

text \<open>
  A file system where a directory on the way to the user applications directory may
  not be searched: \<open>exists\<close> raises \<open>PermissionError\<close>, and so does the enumeration,
  although the system applications directory holds a descriptor file.
\<close>

lemma exists_fs_locked:
  "exists fs_locked (get_user_applications_dir home_u) = Inl PermissionError"
  by (simp add: user_dir_home_u exists_def fs_locked_def parse_path_def path_error_defs)

theorem get_all_desktop_files_permission_error:
  "exists fs_locked (get_user_applications_dir home_u) = Inl PermissionError
   \<and> get_all_desktop_files fs_locked home_u = Inl PermissionError
   \<and> map_of (nodes fs_locked) (parse_path ''/usr/share/applications/c.desktop'')
       = Some (File (Inr ''[Desktop Entry]\<newline>Name=C\<newline>''))"
  by (simp add: get_all_desktop_files_def exists_fs_locked)
    (simp add: fs_locked_def parse_path_def)

section \<open>Loading all entries\<close>

text \<open>
  Loading a file fails exactly when reading it fails: parsing adds no failure.
\<close>

lemma from_file_fails_iff: "from_file fs p = Inl err \<longleftrightarrow> read_text fs p = Inl err"
  by (simp add: from_file_def split: sum.splits)

lemma foldl_load_step:
  "foldl (load_step fs) acc xs =
     acc @ concat (map (\<lambda>x. case read_text fs (fst x) of
                              Inr content \<Rightarrow> [from_string content (Some (str_path (fst x)))]
                            | Inl err \<Rightarrow> []) xs)"
proof (induction xs arbitrary: acc)
  case Nil
  then show ?case by simp
next
  case (Cons x xs)
  have "load_step fs acc x =
      acc @ (case read_text fs (fst x) of
               Inr content \<Rightarrow> [from_string content (Some (str_path (fst x)))]
             | Inl err \<Rightarrow> [])"
    by (cases "read_text fs (fst x)") (simp_all add: load_step_def from_file_def)
  then show ?case
    using Cons.IH [of "load_step fs acc x"] by simp
qed

text \<open>
  Claim C8, as amended. When the enumeration returns, \<open>load_all_entries\<close> returns, in
  the order of enumeration, the parsed entry of every enumerated file that can be
  read; a file whose read raises is skipped, whatever the error. An error that the
  enumeration itself raises is not caught: it reaches the caller.
\<close>

theorem load_all_entries_skips_failures:
  "load_all_entries fs home =
     (case get_all_desktop_files fs home of
        Inl err \<Rightarrow> Inl err
      | Inr files \<Rightarrow>
          Inr (concat (map (\<lambda>x. case read_text fs (fst x) of
                                  Inr content \<Rightarrow> [from_string content (Some (str_path (fst x)))]
                                | Inl err \<Rightarrow> [])
                          files)))"
  unfolding load_all_entries_def by (simp add: foldl_load_step split: sum.splits)

lemma read_text_fs_two_dirs:
  "read_text fs_two_dirs (parse_path ''/home/u/.local/share/applications/a.desktop'')
     = Inr ''[Desktop Entry]\<newline>Name=A\<newline>''"
  "read_text fs_two_dirs (parse_path ''/home/u/.local/share/applications/B.desktop'')
     = Inr ''[Desktop Entry]\<newline>Name=B\<newline>''"
  "read_text fs_two_dirs (parse_path ''/usr/share/applications/c.desktop'') = Inl UnicodeDecodeError"
  by (simp_all add: fs_two_dirs_def read_text_def parse_path_def path_error_defs)

theorem load_all_entries_skips_failures_witness:
  "read_text fs_two_dirs (parse_path ''/usr/share/applications/c.desktop'') = Inl UnicodeDecodeError
   \<and> load_all_entries fs_two_dirs home_u =
     Inr [from_string ''[Desktop Entry]\<newline>Name=A\<newline>''
            (Some ''/home/u/.local/share/applications/a.desktop''),
          from_string ''[Desktop Entry]\<newline>Name=B\<newline>''
            (Some ''/home/u/.local/share/applications/B.desktop'')]"
  using load_all_entries_skips_failures [of fs_two_dirs home_u]
  by (simp add: files_fs_two_dirs read_text_fs_two_dirs) (simp add: parse_path_def str_path_def)

text \<open>
  On the file system where \<open>/home/u/.local\<close> may not be searched, the error of the
  enumeration leaves \<open>load_all_entries\<close>: the caller gets \<open>PermissionError\<close> and no list.
\<close>

theorem load_all_entries_permission_error:
  "load_all_entries fs_locked home_u = Inl PermissionError"
  by (simp add: load_all_entries_def get_all_desktop_files_def exists_fs_locked)

section \<open>Saving an entry without a source path\<close>

lemma split_on_no_sep: "sep \<notin> set s \<Longrightarrow> split_on sep s = [s]"
  by (induction s) auto

lemma parse_path_single:
  "CHR ''/'' \<notin> set s \<Longrightarrow> s \<noteq> [] \<Longrightarrow> s \<noteq> ''.'' \<Longrightarrow> parse_path s = Path [] [s]"
  by (cases s) (auto simp: parse_path_def split_on_no_sep)

lemma user_dir_eq:
  "get_user_applications_dir home =
     Path (path_root home) (path_parts home @ [''.local'', ''share'', ''applications''])"
  by (simp add: get_user_applications_dir_def path_join_def parse_path_def)

lemma lower_char_not_slash: "c \<noteq> CHR ''/'' \<Longrightarrow> lower_char c \<noteq> CHR ''/''"
  by (auto simp: lower_char_def Let_def char_of_eq_iff take_bit_eq_mod)

lemma default_filename_no_slash:
  assumes "CHR ''/'' \<notin> set (name e)"
  shows "CHR ''/'' \<notin> set (default_filename e)"
proof
  assume "CHR ''/'' \<in> set (default_filename e)"
  then have "CHR ''/'' \<in> (\<lambda>c. if lower_char c = CHR '' '' then CHR ''-'' else lower_char c) ` set (name e)"
    by (simp add: default_filename_def replace_char_def lower_def image_image)
  then obtain c where c: "c \<in> set (name e)"
    and "CHR ''/'' = (if lower_char c = CHR '' '' then CHR ''-'' else lower_char c)"
    by (rule imageE)
  then have "lower_char c = CHR ''/''"
    by (simp split: if_splits)
  with lower_char_not_slash [of c] have "c = CHR ''/''"
    by blast
  with c assms show False
    by simp
qed

lemma default_filename_proper: "default_filename e \<noteq> [] \<and> default_filename e \<noteq> ''.''"
proof -
  have "8 \<le> length (default_filename e)"
    by (simp add: default_filename_def)
  then show ?thesis
    by auto
qed

lemma save_path_default:
  assumes "file_path e = None \<or> file_path e = Some []" and "CHR ''/'' \<notin> set (name e)"
  shows "save_path home e None = Path (path_root home)
     (path_parts home @ [''.local'', ''share'', ''applications'', default_filename e])"
  using assms default_filename_no_slash [of e] default_filename_proper [of e]
  by (auto simp: save_path_def path_join_def parse_path_single user_dir_eq)

lemma map_of_update: "map_of (AList.update k v al) k = Some v"
  by (simp add: update_conv')

lemma universal_newlines_id: "CHR 0x0D \<notin> set s \<Longrightarrow> universal_newlines s = s"
  by (induction s rule: universal_newlines.induct) auto

lemma write_text_stored:
  assumes "write_text fs p text = Inr fs'"
  shows "map_of (nodes fs') p = Some (File (Inr text))"
    and "read_text fs' p = Inr (universal_newlines text)"
proof -
  from assms have e: "path_error fs p = None" and n: "path_parts p \<noteq> []"
    and nd: "map_of (nodes fs) p \<noteq> Some Dir"
    and fs': "fs' = fs\<lparr>nodes := AList.update p (File (Inr text)) (nodes fs)\<rparr>"
    by (auto simp: write_text_def is_dir_def split: option.splits if_splits)
  show stored: "map_of (nodes fs') p = Some (File (Inr text))"
    by (simp add: fs' map_of_update)
  have "walk fs' r pre xs = walk fs r pre xs" if "walk fs r pre xs = None" for r pre xs
    using that
  proof (induction xs arbitrary: pre)
    case Nil
    then show ?case by simp
  next
    case (Cons x xs)
    show ?case
    proof (cases "xs = []")
      case True
      with Cons.prems show ?thesis
        by (simp add: fs' split: if_splits)
    next
      case False
      with Cons.prems have d: "map_of (nodes fs) (Path r (pre @ [x])) = Some Dir"
        and w: "walk fs r (pre @ [x]) xs = None"
        and u: "Path r pre \<notin> unsearchable fs" "\<not> NAME_MAX < encoded_length x"
        by (auto split: if_splits option.splits node.splits)
      from d nd have "Path r (pre @ [x]) \<noteq> p"
        by auto
      with d have "map_of (nodes fs') (Path r (pre @ [x])) = Some Dir"
        by (simp add: fs' update_conv')
      moreover have "unsearchable fs' = unsearchable fs"
        by (simp add: fs')
      ultimately show ?thesis
        using False u w d Cons.IH [OF w] by simp
    qed
  qed
  with e have "path_error fs' p = None"
    by (simp add: path_error_def split: if_splits)
  with stored n show "read_text fs' p = Inr (universal_newlines text)"
    by (simp add: read_text_def)
qed

text \<open>
  \<open>save\<close> succeeds on a file system that refuses nothing, when the path of the target
  has no null byte and is not too long, no ancestor of the user applications
  directory is a regular file and the target is not a directory: the missing
  directories are created and the file is written.
\<close>

lemma encoded_length_append [simp]:
  "encoded_length (a @ b) = encoded_length a + encoded_length b"
  by (simp add: encoded_length_def)

lemma mkdir_from_preserves:
  "mkdir_from fs r pre xs = Inr fs' \<Longrightarrow> map_of (nodes fs) q = Some v \<Longrightarrow>
   map_of (nodes fs') q = Some v"
proof (induction xs arbitrary: fs pre)
  case Nil
  then show ?case by simp
next
  case (Cons x xs)
  show ?case
  proof (cases "map_of (nodes fs) (Path r (pre @ [x]))")
    case None
    with Cons.prems(1) have m: "mkdir_from (fs\<lparr>nodes := nodes fs @ [(Path r (pre @ [x]), Dir)]\<rparr>)
        r (pre @ [x]) xs = Inr fs'"
      by (simp add: Let_def split: if_splits)
    have "map_of (nodes (fs\<lparr>nodes := nodes fs @ [(Path r (pre @ [x]), Dir)]\<rparr>)) q = Some v"
      using Cons.prems(2) by (simp add: map_add_def)
    with Cons.IH [OF m] show ?thesis .
  next
    case (Some nd)
    with Cons.prems(1) have "mkdir_from fs r (pre @ [x]) xs = Inr fs'"
      by (cases nd) (simp_all add: Let_def split: if_splits)
    from Cons.IH [OF this Cons.prems(2)] show ?thesis .
  qed
qed

lemma mkdir_from_succeeds:
  assumes "\<forall>n. 0 < n \<and> n \<le> length xs \<longrightarrow>
      (\<forall>c. map_of (nodes fs) (Path r (pre @ take n xs)) \<noteq> Some (File c))
      \<and> Path r (pre @ take n xs) \<notin> denied fs"
    and "unsearchable fs = {}"
    and "\<forall>x\<in>set xs. encoded_length x \<le> NAME_MAX"
  shows "\<exists>fs'. mkdir_from fs r pre xs = Inr fs' \<and> denied fs' = denied fs
      \<and> unsearchable fs' = unsearchable fs
      \<and> (\<forall>n. 0 < n \<and> n \<le> length xs \<longrightarrow>
            map_of (nodes fs') (Path r (pre @ take n xs)) = Some Dir)
      \<and> (\<forall>q. length (pre @ xs) < length (path_parts q) \<longrightarrow>
            map_of (nodes fs') q = map_of (nodes fs) q)"
  using assms
proof (induction xs arbitrary: fs pre)
  case Nil
  then show ?case by simp
next
  case (Cons x xs)
  let ?d = "Path r (pre @ [x])"
  from Cons.prems(1) [rule_format, of 1]
  have d: "\<forall>c. map_of (nodes fs) ?d \<noteq> Some (File c)" "?d \<notin> denied fs"
    by simp_all
  from Cons.prems(2,3) have ok: "Path r pre \<notin> unsearchable fs" "\<not> NAME_MAX < encoded_length x"
    by auto
  define fs1 where "fs1 = (if map_of (nodes fs) ?d = None
      then fs\<lparr>nodes := nodes fs @ [(?d, Dir)]\<rparr> else fs)"
  have step: "mkdir_from fs r pre (x # xs) = mkdir_from fs1 r (pre @ [x]) xs"
  proof (cases "map_of (nodes fs) ?d")
    case None
    with d ok show ?thesis by (simp add: fs1_def)
  next
    case (Some nd)
    with d have "nd = Dir" by (cases nd) auto
    with Some ok show ?thesis by (simp add: fs1_def)
  qed
  have den: "denied fs1 = denied fs" and uns: "unsearchable fs1 = unsearchable fs"
    by (simp_all add: fs1_def)
  have here: "map_of (nodes fs1) ?d = Some Dir"
  proof (cases "map_of (nodes fs) ?d")
    case None
    then show ?thesis by (simp add: fs1_def map_add_def)
  next
    case (Some nd)
    with d have "nd = Dir" by (cases nd) auto
    with Some show ?thesis by (simp add: fs1_def)
  qed
  have other: "map_of (nodes fs1) q = map_of (nodes fs) q" if "q \<noteq> ?d" for q
    using that by (auto simp: fs1_def map_add_def split: option.splits)
  have "\<forall>n. 0 < n \<and> n \<le> length xs \<longrightarrow>
      (\<forall>c. map_of (nodes fs1) (Path r ((pre @ [x]) @ take n xs)) \<noteq> Some (File c))
      \<and> Path r ((pre @ [x]) @ take n xs) \<notin> denied fs1"
  proof (intro allI impI)
    fix n
    assume n: "0 < n \<and> n \<le> length xs"
    then have "Path r ((pre @ [x]) @ take n xs) \<noteq> ?d"
      by auto
    then have "map_of (nodes fs1) (Path r ((pre @ [x]) @ take n xs))
        = map_of (nodes fs) (Path r ((pre @ [x]) @ take n xs))"
      by (rule other)
    moreover from Cons.prems(1) [rule_format, of "Suc n"] n
    have "(\<forall>c. map_of (nodes fs) (Path r ((pre @ [x]) @ take n xs)) \<noteq> Some (File c))
        \<and> Path r ((pre @ [x]) @ take n xs) \<notin> denied fs"
      by simp
    ultimately show "(\<forall>c. map_of (nodes fs1) (Path r ((pre @ [x]) @ take n xs)) \<noteq> Some (File c))
        \<and> Path r ((pre @ [x]) @ take n xs) \<notin> denied fs1"
      by (simp add: den)
  qed
  moreover have "unsearchable fs1 = {}"
    using Cons.prems(2) uns by simp
  moreover have "\<forall>x\<in>set xs. encoded_length x \<le> NAME_MAX"
    using Cons.prems(3) by simp
  ultimately obtain fs' where
    r: "mkdir_from fs1 r (pre @ [x]) xs = Inr fs'" "denied fs' = denied fs1"
    "unsearchable fs' = unsearchable fs1"
    "\<forall>n. 0 < n \<and> n \<le> length xs \<longrightarrow>
        map_of (nodes fs') (Path r ((pre @ [x]) @ take n xs)) = Some Dir"
    "\<forall>q. length ((pre @ [x]) @ xs) < length (path_parts q) \<longrightarrow>
        map_of (nodes fs') q = map_of (nodes fs1) q"
    using Cons.IH [of fs1 "pre @ [x]"] by blast
  have first: "map_of (nodes fs') ?d = Some Dir"
    using r(1) here by (rule mkdir_from_preserves)
  have "\<forall>n. 0 < n \<and> n \<le> length (x # xs) \<longrightarrow>
      map_of (nodes fs') (Path r (pre @ take n (x # xs))) = Some Dir"
  proof (intro allI impI)
    fix n
    assume n: "0 < n \<and> n \<le> length (x # xs)"
    then obtain m where m: "n = Suc m" by (cases n) auto
    show "map_of (nodes fs') (Path r (pre @ take n (x # xs))) = Some Dir"
    proof (cases "m = 0")
      case True
      with m first show ?thesis by simp
    next
      case False
      with n m r(4) [rule_format, of m] show ?thesis by simp
    qed
  qed
  moreover have "\<forall>q. length (pre @ x # xs) < length (path_parts q) \<longrightarrow>
      map_of (nodes fs') q = map_of (nodes fs) q"
  proof (intro allI impI)
    fix q
    assume len: "length (pre @ x # xs) < length (path_parts q)"
    then have "q \<noteq> ?d" by auto
    with len r(5) other [of q] show "map_of (nodes fs') q = map_of (nodes fs) q"
      by simp
  qed
  ultimately show ?case
    using step r(1,2,3) den uns by simp
qed

lemma walk_succeeds:
  assumes "unsearchable fs = {}"
    and "\<forall>x\<in>set xs. encoded_length x \<le> NAME_MAX"
    and "\<forall>n. 0 < n \<and> n < length xs \<longrightarrow> map_of (nodes fs) (Path r (pre @ take n xs)) = Some Dir"
  shows "walk fs r pre xs = None"
  using assms
proof (induction xs arbitrary: pre)
  case Nil
  then show ?case by simp
next
  case (Cons x xs)
  show ?case
  proof (cases "xs = []")
    case True
    with Cons.prems show ?thesis by simp
  next
    case False
    with Cons.prems(3) [rule_format, of 1]
    have d: "map_of (nodes fs) (Path r (pre @ [x])) = Some Dir"
      by (cases xs) simp_all
    have "\<forall>n. 0 < n \<and> n < length xs \<longrightarrow>
        map_of (nodes fs) (Path r ((pre @ [x]) @ take n xs)) = Some Dir"
    proof (intro allI impI)
      fix n
      assume "0 < n \<and> n < length xs"
      with Cons.prems(3) [rule_format, of "Suc n"]
      show "map_of (nodes fs) (Path r ((pre @ [x]) @ take n xs)) = Some Dir"
        by simp
    qed
    with Cons.prems(1,2) have "walk fs r (pre @ [x]) xs = None"
      by (intro Cons.IH) simp_all
    with d False Cons.prems(1,2) show ?thesis
      by simp
  qed
qed

lemma str_path_default:
  assumes "file_path e = None \<or> file_path e = Some []" and "CHR ''/'' \<notin> set (name e)"
  shows "str_path (save_path home e None)
      = str_path (get_user_applications_dir home) @ ''/'' @ default_filename e"
proof -
  have "join ''/'' ((path_parts home @ [''.local'', ''share'', ''applications'']) @ [default_filename e])
      = join ''/'' (path_parts home @ [''.local'', ''share'', ''applications'']) @ ''/'' @ default_filename e"
    by (rule join_snoc) simp
  then show ?thesis
    unfolding save_path_default [OF assms] user_dir_eq by (simp add: str_path_def)
qed

lemma save_succeeds:
  assumes "file_path e = None \<or> file_path e = Some []" and "CHR ''/'' \<notin> set (name e)"
    and "denied fs = {}" and "unsearchable fs = {}"
    and "CHR 0x00 \<notin> set (str_path (save_path home e None))"
    and "encoded_length (str_path (save_path home e None)) < PATH_MAX"
    and "\<forall>x\<in>set (path_parts (save_path home e None)). encoded_length x \<le> NAME_MAX"
    and "\<forall>n c. map_of (nodes fs)
          (Path (path_root home) (take n (path_parts (get_user_applications_dir home))))
        \<noteq> Some (File c)"
    and "map_of (nodes fs) (save_path home e None) \<noteq> Some Dir"
  shows "\<exists>fs'. save fs home e None =
      Inr (save_path home e None, e\<lparr>file_path := Some (str_path (save_path home e None))\<rparr>, fs')
    \<and> map_of (nodes fs') (save_path home e None) = Some (File (Inr (to_string e)))"
proof -
  define p where "p = save_path home e None"
  define ud where "ud = path_parts home @ [''.local'', ''share'', ''applications'']"
  have ud: "path_parts (get_user_applications_dir home) = ud"
    by (simp add: user_dir_eq ud_def)
  have p: "p = Path (path_root home) (ud @ [default_filename e])"
    unfolding p_def ud_def using save_path_default [OF assms(1,2), of home] by simp
  then have parent: "path_parent p = Path (path_root home) ud"
    by (simp add: path_parent_def butlast_append)
  then have parent': "path_parent p = get_user_applications_dir home"
    by (simp add: user_dir_eq ud_def)
  have sp: "str_path p = str_path (path_parent p) @ ''/'' @ default_filename e"
    unfolding p_def parent' [unfolded p_def] using assms(1,2) by (rule str_path_default)
  have names: "\<forall>x\<in>set ud. encoded_length x \<le> NAME_MAX"
    "encoded_length (default_filename e) \<le> NAME_MAX"
    using assms(7) by (simp_all add: p_def [symmetric] p)
  have "\<forall>n. 0 < n \<and> n \<le> length ud \<longrightarrow>
      (\<forall>c. map_of (nodes fs) (Path (path_root home) ([] @ take n ud)) \<noteq> Some (File c))
      \<and> Path (path_root home) ([] @ take n ud) \<notin> denied fs"
    using assms(3,8) by (simp add: ud)
  from mkdir_from_succeeds [OF this assms(4) names(1)] obtain fs1 where
    m: "mkdir_from fs (path_root home) [] ud = Inr fs1" "denied fs1 = denied fs"
    "unsearchable fs1 = unsearchable fs"
    "\<forall>n. 0 < n \<and> n \<le> length ud \<longrightarrow>
        map_of (nodes fs1) (Path (path_root home) ([] @ take n ud)) = Some Dir"
    "\<forall>q. length ([] @ ud) < length (path_parts q) \<longrightarrow> map_of (nodes fs1) q = map_of (nodes fs) q"
    by blast
  have nul: "CHR 0x00 \<notin> set (str_path (path_parent p))"
    and len: "encoded_length (str_path (path_parent p)) < PATH_MAX"
    using assms(5,6) by (simp_all add: p_def [symmetric] sp)
  have mk: "mkdir_parents fs (path_parent p) = Inr fs1"
    using m(1) nul len by (simp add: mkdir_parents_def) (simp add: parent)
  have "walk fs1 (path_root home) [] (ud @ [default_filename e]) = None"
  proof (rule walk_succeeds)
    show "unsearchable fs1 = {}"
      using m(3) assms(4) by simp
    show "\<forall>x\<in>set (ud @ [default_filename e]). encoded_length x \<le> NAME_MAX"
      using names by simp
    show "\<forall>n. 0 < n \<and> n < length (ud @ [default_filename e]) \<longrightarrow>
        map_of (nodes fs1) (Path (path_root home) ([] @ take n (ud @ [default_filename e]))) = Some Dir"
      using m(4) by simp
  qed
  then have pe: "path_error fs1 p = None"
    using assms(5,6) by (simp add: path_error_def p_def [symmetric]) (simp add: p)
  have "map_of (nodes fs1) p = map_of (nodes fs) p"
    using m(5) by (simp add: p)
  with assms(9) have "map_of (nodes fs1) p \<noteq> Some Dir"
    by (simp add: p_def)
  then have nd: "\<not> is_dir fs1 p"
    by (simp add: is_dir_def p)
  define fs2 where "fs2 = fs1\<lparr>nodes := AList.update p (File (Inr (to_string e))) (nodes fs1)\<rparr>"
  have wr: "write_text fs1 p (to_string e) = Inr fs2"
    using nd m(2) assms(3) pe by (simp add: write_text_def fs2_def)
  then have "map_of (nodes fs2) p = Some (File (Inr (to_string e)))"
    by (rule write_text_stored)
  moreover have "save fs home e None = Inr (p, e\<lparr>file_path := Some (str_path p)\<rparr>, fs2)"
    using mk wr by (simp add: save_def Let_def p_def [symmetric])
  ultimately show ?thesis
    unfolding p_def by blast
qed

text \<open>
  Claim C9, as amended. For every entry with no source path (none, or the empty
  string), no explicit path, and a name without \<open>/\<close>: when \<open>save\<close> succeeds, the path
  it returns is the file of the user applications directory whose name is the
  lowercased name with spaces replaced by hyphens plus \<open>.desktop\<close>; that file then
  holds the serialized entry (reading it back gives the serialization with every
  \<open>\r\n\<close> and \<open>\r\<close> turned into \<open>\n\<close>), and the entry's source path is the written
  path.
\<close>

theorem save_default_location:
  assumes "file_path e = None \<or> file_path e = Some []"
    and "CHR ''/'' \<notin> set (name e)"
    and "save fs home e None = Inr (p, e', fs')"
  shows "path_parent p = get_user_applications_dir home
     \<and> path_name p = default_filename e
     \<and> str_path p = str_path (get_user_applications_dir home) @ ''/'' @ default_filename e
     \<and> map_of (nodes fs') p = Some (File (Inr (to_string e)))
     \<and> read_text fs' p = Inr (universal_newlines (to_string e))
     \<and> e' = e\<lparr>file_path := Some (str_path p)\<rparr>"
proof -
  have sp: "save_path home e None = Path (path_root home)
      (path_parts home @ [''.local'', ''share'', ''applications'', default_filename e])"
    using assms(1,2) by (rule save_path_default)
  from assms(3) obtain fs1 where
    p: "p = save_path home e None"
    and w: "write_text fs1 p (to_string e) = Inr fs'"
    and e': "e' = e\<lparr>file_path := Some (str_path p)\<rparr>"
    by (auto simp: save_def Let_def split: sum.splits)
  have "path_parent p = get_user_applications_dir home"
    unfolding p sp user_dir_eq by (simp add: path_parent_def butlast_append)
  moreover have "path_name p = default_filename e"
    unfolding p sp by (simp add: path_name_def)
  moreover have "str_path p = str_path (get_user_applications_dir home) @ ''/'' @ default_filename e"
    unfolding p using assms(1,2) by (rule str_path_default)
  moreover have "map_of (nodes fs') p = Some (File (Inr (to_string e)))"
    and "read_text fs' p = Inr (universal_newlines (to_string e))"
    using w by (rule write_text_stored)+
  ultimately show ?thesis
    using e' by simp
qed

lemma default_filename_my_app: "default_filename entry_my_app = ''my-app.desktop''"
  by (simp add: default_filename_def entry_my_app_def replace_char_def lower_def lower_char_def char_of_def bit_Suc_0_iff)

lemma save_path_my_app: "save_path home_u entry_my_app None = Path ''/'' [''home'', ''u'', ''.local'', ''share'', ''applications'', ''my-app.desktop'']"
proof -
  have "file_path entry_my_app = None"
    by (simp add: entry_my_app_def)
  then have "save_path home_u entry_my_app None =
      path_join (get_user_applications_dir home_u) (default_filename entry_my_app)"
    by (simp add: save_path_def)
  also have "\<dots> = Path ''/'' [''home'', ''u'', ''.local'', ''share'', ''applications'', ''my-app.desktop'']"
    by (simp add: default_filename_my_app user_dir_home_u path_join_def parse_path_def)
  finally show ?thesis .
qed

lemma mkdir_user_dir: "mkdir_parents fs_empty (Path ''/'' [''home'', ''u'', ''.local'', ''share'', ''applications'']) =
   Inr \<lparr> nodes = [(Path ''/'' [''home''], Dir), (Path ''/'' [''home'', ''u''], Dir),
               (Path ''/'' [''home'', ''u'', ''.local''], Dir), (Path ''/'' [''home'', ''u'', ''.local'', ''share''], Dir),
               (Path ''/'' [''home'', ''u'', ''.local'', ''share'', ''applications''], Dir)], denied = {}, unsearchable = {}, unreadable = {} \<rparr>"
  by (simp add: mkdir_parents_def fs_empty_def path_error_defs)

lemma write_in_user_dir: "write_text \<lparr> nodes = [(Path ''/'' [''home''], Dir), (Path ''/'' [''home'', ''u''], Dir),
               (Path ''/'' [''home'', ''u'', ''.local''], Dir), (Path ''/'' [''home'', ''u'', ''.local'', ''share''], Dir),
               (Path ''/'' [''home'', ''u'', ''.local'', ''share'', ''applications''], Dir)], denied = {}, unsearchable = {}, unreadable = {} \<rparr>
      (Path ''/'' [''home'', ''u'', ''.local'', ''share'', ''applications'', ''my-app.desktop'']) text =
   Inr \<lparr> nodes = [(Path ''/'' [''home''], Dir), (Path ''/'' [''home'', ''u''], Dir),
               (Path ''/'' [''home'', ''u'', ''.local''], Dir), (Path ''/'' [''home'', ''u'', ''.local'', ''share''], Dir),
               (Path ''/'' [''home'', ''u'', ''.local'', ''share'', ''applications''], Dir),
               (Path ''/'' [''home'', ''u'', ''.local'', ''share'', ''applications'', ''my-app.desktop''], File (Inr text))], denied = {}, unsearchable = {}, unreadable = {} \<rparr>"
  by (simp add: write_text_def is_dir_def path_parent_def path_error_defs)

lemma save_entry_my_app:
  "save fs_empty home_u entry_my_app None =
     Inr (Path ''/'' [''home'', ''u'', ''.local'', ''share'', ''applications'', ''my-app.desktop''],
          entry_my_app\<lparr>file_path := Some ''/home/u/.local/share/applications/my-app.desktop''\<rparr>,
          \<lparr> nodes = [(Path ''/'' [''home''], Dir), (Path ''/'' [''home'', ''u''], Dir),
               (Path ''/'' [''home'', ''u'', ''.local''], Dir), (Path ''/'' [''home'', ''u'', ''.local'', ''share''], Dir),
               (Path ''/'' [''home'', ''u'', ''.local'', ''share'', ''applications''], Dir),
               (Path ''/'' [''home'', ''u'', ''.local'', ''share'', ''applications'', ''my-app.desktop''],
                  File (Inr (to_string entry_my_app)))],
             denied = {}, unsearchable = {}, unreadable = {} \<rparr>)"
proof -
  have "path_parent (Path ''/'' [''home'', ''u'', ''.local'', ''share'', ''applications'', ''my-app.desktop''])
      = Path ''/'' [''home'', ''u'', ''.local'', ''share'', ''applications'']"
    by (simp add: path_parent_def)
  moreover have "str_path (Path ''/'' [''home'', ''u'', ''.local'', ''share'', ''applications'', ''my-app.desktop''])
      = ''/home/u/.local/share/applications/my-app.desktop''"
    by (simp add: str_path_def)
  ultimately show ?thesis
    unfolding save_def save_path_my_app Let_def by (simp only: mkdir_user_dir write_in_user_dir sum.case)
qed

lemma no_cr_entry_my_app: "CHR 0x0D \<notin> set (to_string entry_my_app)"
  by (simp add: entry_my_app_def codec_defs str_defs)

theorem save_default_location_witness:
  "file_path entry_my_app = None \<and> CHR ''/'' \<notin> set (name entry_my_app)
   \<and> (\<exists>p e' fs'. save fs_empty home_u entry_my_app None = Inr (p, e', fs')
        \<and> str_path p = ''/home/u/.local/share/applications/my-app.desktop''
        \<and> map_of (nodes fs') p = Some (File (Inr (to_string entry_my_app)))
        \<and> read_text fs' p = Inr (to_string entry_my_app)
        \<and> file_path e' = Some ''/home/u/.local/share/applications/my-app.desktop'')"
proof -
  have a: "file_path entry_my_app = None \<or> file_path entry_my_app = Some []"
    and a': "file_path entry_my_app = None"
    and b: "CHR ''/'' \<notin> set (name entry_my_app)"
    by (simp_all add: entry_my_app_def)
  define p where "p = Path ''/'' [''home'', ''u'', ''.local'', ''share'', ''applications'', ''my-app.desktop'']"
  have sp: "str_path p = ''/home/u/.local/share/applications/my-app.desktop''"
    by (simp add: p_def str_path_def)
  from save_entry_my_app obtain e' fs' where
    s: "save fs_empty home_u entry_my_app None = Inr (p, e', fs')"
    unfolding p_def by blast
  from save_default_location [OF a b s]
  have "map_of (nodes fs') p = Some (File (Inr (to_string entry_my_app)))"
    and "read_text fs' p = Inr (universal_newlines (to_string entry_my_app))"
    and "e' = entry_my_app\<lparr>file_path := Some (str_path p)\<rparr>"
    by blast+
  then have "map_of (nodes fs') p = Some (File (Inr (to_string entry_my_app)))"
    and "read_text fs' p = Inr (to_string entry_my_app)"
    and "file_path e' = Some ''/home/u/.local/share/applications/my-app.desktop''"
    by (simp_all add: sp universal_newlines_id [OF no_cr_entry_my_app])
  with a' b s sp show ?thesis
    by blast
qed

text \<open>
  A name that starts with \<open>/\<close>: the derived file name is an absolute path, which
  replaces the user applications directory when it is joined to it, and \<open>save\<close>
  writes outside that directory.
\<close>

lemma save_path_abs_name: "save_path home_u entry_abs_name None = Path ''/'' [''tmp'', ''x.desktop'']"
proof -
  have "file_path entry_abs_name = None"
    by (simp add: entry_abs_name_def)
  then have "save_path home_u entry_abs_name None =
      path_join (get_user_applications_dir home_u) (default_filename entry_abs_name)"
    by (simp add: save_path_def)
  moreover have "default_filename entry_abs_name = ''/tmp/x.desktop''"
    by (simp add: default_filename_def entry_abs_name_def replace_char_def lower_def
        lower_char_def char_of_def bit_Suc_0_iff)
  ultimately show ?thesis
    by (simp add: path_join_def parse_path_def)
qed

theorem save_absolute_name:
  "file_path entry_abs_name = None
   \<and> save fs_empty home_u entry_abs_name None =
       Inr (Path ''/'' [''tmp'', ''x.desktop''],
            entry_abs_name\<lparr>file_path := Some ''/tmp/x.desktop''\<rparr>,
            \<lparr> nodes = [(Path ''/'' [''tmp''], Dir),
                 (Path ''/'' [''tmp'', ''x.desktop''], File (Inr (to_string entry_abs_name)))],
               denied = {}, unsearchable = {}, unreadable = {} \<rparr>)
   \<and> \<not> lies_under (get_user_applications_dir home_u) (Path ''/'' [''tmp'', ''x.desktop''])"
proof -
  have "file_path entry_abs_name = None"
    by (simp add: entry_abs_name_def)
  moreover have "mkdir_parents fs_empty (Path ''/'' [''tmp'']) =
      Inr \<lparr> nodes = [(Path ''/'' [''tmp''], Dir)], denied = {}, unsearchable = {}, unreadable = {} \<rparr>"
    by (simp add: mkdir_parents_def fs_empty_def path_error_defs)
  moreover have "write_text \<lparr> nodes = [(Path ''/'' [''tmp''], Dir)], denied = {}, unsearchable = {}, unreadable = {} \<rparr>
      (Path ''/'' [''tmp'', ''x.desktop'']) (to_string entry_abs_name) =
      Inr \<lparr> nodes = [(Path ''/'' [''tmp''], Dir),
                 (Path ''/'' [''tmp'', ''x.desktop''], File (Inr (to_string entry_abs_name)))],
            denied = {}, unsearchable = {}, unreadable = {} \<rparr>"
    by (simp add: write_text_def is_dir_def path_parent_def path_error_defs)
  moreover have "path_parent (Path ''/'' [''tmp'', ''x.desktop'']) = Path ''/'' [''tmp'']"
    by (simp add: path_parent_def)
  moreover have "str_path (Path ''/'' [''tmp'', ''x.desktop'']) = ''/tmp/x.desktop''"
    by (simp add: str_path_def)
  moreover have "\<not> lies_under (get_user_applications_dir home_u) (Path ''/'' [''tmp'', ''x.desktop''])"
    by (simp add: user_dir_home_u lies_under_def)
  ultimately show ?thesis
    unfolding save_def save_path_abs_name Let_def by simp
qed

section \<open>Deleting an entry\<close>

lemma startswith_iff: "startswith s p \<longleftrightarrow> (\<exists>post. s = p @ post)"
proof
  assume "startswith s p"
  then have "s = p @ drop (length p) s"
    by (metis append_take_drop_id startswith_def)
  then show "\<exists>post. s = p @ post" ..
next
  assume "\<exists>post. s = p @ post"
  then show "startswith s p"
    by (auto simp: startswith_def)
qed

lemma contains_iff: "contains s sub \<longleftrightarrow> (\<exists>pre post. s = pre @ sub @ post)"
proof (induction s)
  case Nil
  then show ?case by simp
next
  case (Cons c cs)
  show ?case
  proof
    assume "contains (c # cs) sub"
    then consider "startswith (c # cs) sub" | "contains cs sub" by auto
    then show "\<exists>pre post. c # cs = pre @ sub @ post"
    proof cases
      case 1
      then obtain post where "c # cs = [] @ sub @ post"
        by (auto simp: startswith_iff)
      then show ?thesis by blast
    next
      case 2
      with Cons.IH obtain pre post where "cs = pre @ sub @ post" by blast
      then have "c # cs = (c # pre) @ sub @ post" by simp
      then show ?thesis by blast
    qed
  next
    assume "\<exists>pre post. c # cs = pre @ sub @ post"
    then obtain pre post where eq: "c # cs = pre @ sub @ post" by blast
    show "contains (c # cs) sub"
    proof (cases pre)
      case Nil
      with eq have "startswith (c # cs) sub"
        by (auto simp: startswith_iff)
      then show ?thesis by simp
    next
      case (Cons a pre')
      with eq have "cs = pre' @ sub @ post" by simp
      with Cons.IH have "contains cs sub" by blast
      then show ?thesis by simp
    qed
  qed
qed

lemma join_contains_part:
  "y \<in> set xs \<Longrightarrow> \<exists>pre post. join sep xs = pre @ y @ post"
proof (induction sep xs rule: join.induct)
  case (1 sep)
  then show ?case by simp
next
  case (2 sep x)
  then have "join sep [x] = [] @ y @ []" by simp
  then show ?case by blast
next
  case (3 sep x z zs)
  show ?case
  proof (cases "y = x")
    case True
    then have "join sep (x # z # zs) = [] @ y @ (sep @ join sep (z # zs))" by simp
    then show ?thesis by blast
  next
    case False
    with 3 obtain pre post where "join sep (z # zs) = pre @ y @ post" by auto
    then have "join sep (x # z # zs) = (x @ sep @ pre) @ y @ post" by simp
    then show ?thesis by blast
  qed
qed

lemma under_user_dir_contains_dot_local:
  assumes "lies_under (get_user_applications_dir home) p"
  shows "contains (str_path p) ''.local''"
proof -
  define n where "n = length (path_parts (get_user_applications_dir home))"
  have "take n (path_parts p) = path_parts home @ [''.local'', ''share'', ''applications'']"
    using assms unfolding n_def lies_under_def by (simp add: user_dir_eq)
  then have "''.local'' \<in> set (take n (path_parts p))"
    by simp
  then have mem: "''.local'' \<in> set (path_parts p)"
    by (rule in_set_takeD)
  then obtain pre post where "join ''/'' (path_parts p) = pre @ ''.local'' @ post"
    using join_contains_part by blast
  moreover from mem have "path_parts p \<noteq> []" by auto
  ultimately have "str_path p = (path_root p @ pre) @ ''.local'' @ post"
    by (simp add: str_path_def)
  then show ?thesis
    unfolding contains_iff by blast
qed

text \<open>
  What the guard of \<open>action_delete\<close> does refuse: an entry whose path, as a string,
  does not contain \<open>.local\<close> (such a path never lies under the user applications
  directory). The file system and the selection stay as they are.
\<close>

lemma action_delete_refuses:
  assumes "file_path e = Some s" and "s \<noteq> []"
    and "\<not> contains (str_path (parse_path s)) ''.local''"
    and "exists fs (parse_path s) = Inr found"
  shows "action_delete fs (Some e) =
       Inr (if found then CannotDeleteSystemEntries else FileNotFound, Some e, fs)
     \<and> \<not> lies_under (get_user_applications_dir home) (parse_path s)"
  using assms under_user_dir_contains_dot_local [of home "parse_path s"]
  by (auto simp: action_delete_def Let_def)

lemma parse_system_editor:
  "parse_path ''/usr/share/applications/editor.desktop''
     = Path ''/'' [''usr'', ''share'', ''applications'', ''editor.desktop'']"
  by (simp add: parse_path_def)

lemma parse_system_local:
  "parse_path ''/usr/share/applications/org.local.desktop''
     = Path ''/'' [''usr'', ''share'', ''applications'', ''org.local.desktop'']"
  by (simp add: parse_path_def)

lemma action_delete_system_editor:
  "action_delete fs_system (Some entry_system_editor)
     = Inr (CannotDeleteSystemEntries, Some entry_system_editor, fs_system)"
proof -
  have a: "file_path entry_system_editor = Some ''/usr/share/applications/editor.desktop''"
    by (simp add: entry_system_editor_def)
  have b: "''/usr/share/applications/editor.desktop'' \<noteq> []"
    by simp
  have c: "\<not> contains (str_path (parse_path ''/usr/share/applications/editor.desktop'')) ''.local''"
    by (simp add: parse_system_editor str_path_def startswith_def)
  have d: "exists fs_system (parse_path ''/usr/share/applications/editor.desktop'') = Inr True"
    by (simp add: parse_system_editor exists_def fs_system_def path_error_defs)
  from action_delete_refuses [OF a b c d, of home_u] show ?thesis
    by simp
qed

text \<open>
  Claim C6. The claim holds of the entries that the guard of \<open>action_delete\<close>
  recognises, and fails on this input: a file of the system applications directory
  whose name contains \<open>.local\<close>, on a file system that refuses nothing. The path
  lies under the system applications directory and not under the user applications
  directory; \<open>action_delete\<close> refuses to delete its sibling \<open>editor.desktop\<close> as a
  system entry, and removes \<open>org.local.desktop\<close> from the file system.
\<close>

theorem action_delete_system_entry:
  "\<not> lies_under (get_user_applications_dir home_u)
       (parse_path ''/usr/share/applications/org.local.desktop'')
   \<and> lies_under get_system_applications_dir
       (parse_path ''/usr/share/applications/org.local.desktop'')
   \<and> action_delete fs_system (Some entry_system_editor)
       = Inr (CannotDeleteSystemEntries, Some entry_system_editor, fs_system)
   \<and> action_delete fs_system (Some entry_system_local)
       = Inr (Deleted ''org.local.desktop'', None,
          \<lparr> nodes = [
              (Path ''/'' [''usr''], Dir),
              (Path ''/'' [''usr'', ''share''], Dir),
              (Path ''/'' [''usr'', ''share'', ''applications''], Dir),
              (Path ''/'' [''usr'', ''share'', ''applications'', ''editor.desktop''],
                 File (Inr ''[Desktop Entry]\<newline>Name=Editor\<newline>''))],
            denied = {}, unsearchable = {}, unreadable = {} \<rparr>)"
proof -
  have "\<not> lies_under (get_user_applications_dir home_u)
       (parse_path ''/usr/share/applications/org.local.desktop'')"
    by (simp add: parse_system_local user_dir_home_u lies_under_def)
  moreover have "lies_under get_system_applications_dir
       (parse_path ''/usr/share/applications/org.local.desktop'')"
    by (simp add: parse_system_local system_dir_eq lies_under_def)
  moreover have "file_path entry_system_local = Some ''/usr/share/applications/org.local.desktop''"
    by (simp add: entry_system_local_def)
  moreover have "exists fs_system (Path ''/'' [''usr'', ''share'', ''applications'', ''org.local.desktop''])
      = Inr True"
    by (simp add: exists_def fs_system_def path_error_defs)
  moreover have "contains (str_path (Path ''/'' [''usr'', ''share'', ''applications'', ''org.local.desktop''])) ''.local''"
    by (simp add: str_path_def startswith_def)
  moreover have "unlink fs_system (Path ''/'' [''usr'', ''share'', ''applications'', ''org.local.desktop'']) =
      Inr \<lparr> nodes = [
              (Path ''/'' [''usr''], Dir),
              (Path ''/'' [''usr'', ''share''], Dir),
              (Path ''/'' [''usr'', ''share'', ''applications''], Dir),
              (Path ''/'' [''usr'', ''share'', ''applications'', ''editor.desktop''],
                 File (Inr ''[Desktop Entry]\<newline>Name=Editor\<newline>''))],
            denied = {}, unsearchable = {}, unreadable = {} \<rparr>"
    by (simp add: unlink_def fs_system_def path_error_defs)
  moreover have "path_name (Path ''/'' [''usr'', ''share'', ''applications'', ''org.local.desktop'']) = ''org.local.desktop''"
    by (simp add: path_name_def)
  ultimately have "\<not> lies_under (get_user_applications_dir home_u)
       (parse_path ''/usr/share/applications/org.local.desktop'')
   \<and> lies_under get_system_applications_dir
       (parse_path ''/usr/share/applications/org.local.desktop'')
   \<and> action_delete fs_system (Some entry_system_local)
       = Inr (Deleted ''org.local.desktop'', None,
          \<lparr> nodes = [
              (Path ''/'' [''usr''], Dir),
              (Path ''/'' [''usr'', ''share''], Dir),
              (Path ''/'' [''usr'', ''share'', ''applications''], Dir),
              (Path ''/'' [''usr'', ''share'', ''applications'', ''editor.desktop''],
                 File (Inr ''[Desktop Entry]\<newline>Name=Editor\<newline>''))],
            denied = {}, unsearchable = {}, unreadable = {} \<rparr>)"
    by (simp add: action_delete_def parse_system_local Let_def)
  with action_delete_system_editor show ?thesis
    by simp
qed

theorem action_delete_system_entry_witness:
  "map_of (nodes fs_system) (Path ''/'' [''usr'', ''share'', ''applications'', ''org.local.desktop''])
     = Some (File (Inr ''[Desktop Entry]\<newline>Name=Local\<newline>''))
   \<and> (\<exists>fs'. action_delete fs_system (Some entry_system_local)
          = Inr (Deleted ''org.local.desktop'', None, fs')
        \<and> map_of (nodes fs') (Path ''/'' [''usr'', ''share'', ''applications'', ''org.local.desktop''])
          = None)"
  using action_delete_system_entry by (simp add: fs_system_def)

section \<open>The round trip through the codec\<close>

subsection \<open>Strings\<close>

lemma dropWhile_id_iff: "dropWhile P xs = xs \<longleftrightarrow> (xs = [] \<or> \<not> P (hd xs))"
proof (cases xs)
  case Nil
  then show ?thesis by simp
next
  case (Cons a list)
  have "dropWhile P list \<noteq> a # list"
    using length_dropWhile_le [of P list] by (auto dest: arg_cong [where f = length])
  with Cons show ?thesis by simp
qed

lemma strip_id_iff:
  "strip s = s \<longleftrightarrow> (s = [] \<or> (\<not> is_space (hd s) \<and> \<not> is_space (last s)))"
proof (cases "s = []")
  case True
  then show ?thesis by (simp add: strip_def)
next
  case False
  show ?thesis
  proof
    assume eq: "strip s = s"
    have "length (strip s) \<le> length (dropWhile is_space s)"
      unfolding strip_def using length_dropWhile_le [of is_space "rev (dropWhile is_space s)"] by simp
    with eq have "length s \<le> length (dropWhile is_space s)" by simp
    moreover have "length (takeWhile is_space s) + length (dropWhile is_space s) = length s"
      by (metis length_append takeWhile_dropWhile_id)
    ultimately have "length (takeWhile is_space s) = 0"
      by linarith
    then have "takeWhile is_space s = []"
      by simp
    then have a: "dropWhile is_space s = s"
      by (metis append_Nil takeWhile_dropWhile_id)
    with eq have "dropWhile is_space (rev s) = rev s"
      unfolding strip_def by (metis rev_rev_ident)
    with a False show "s = [] \<or> (\<not> is_space (hd s) \<and> \<not> is_space (last s))"
      by (simp add: dropWhile_id_iff hd_rev)
  next
    assume "s = [] \<or> (\<not> is_space (hd s) \<and> \<not> is_space (last s))"
    with False have "dropWhile is_space s = s" and "dropWhile is_space (rev s) = rev s"
      by (simp_all add: dropWhile_id_iff hd_rev)
    then show "strip s = s"
      by (simp add: strip_def)
  qed
qed

lemma set_strip: "set (strip s) \<subseteq> set s"
proof -
  have "set (strip s) \<subseteq> set (dropWhile is_space s)"
    unfolding strip_def using set_dropWhileD [of _ is_space "rev (dropWhile is_space s)"] by auto
  also have "\<dots> \<subseteq> set s"
    using set_dropWhileD [of _ is_space s] by auto
  finally show ?thesis .
qed

lemma set_split_on: "xs \<in> set (split_on sep s) \<Longrightarrow> set xs \<subseteq> set s"
proof (induction s arbitrary: xs)
  case Nil
  then show ?case by simp
next
  case (Cons c s)
  show ?case
  proof (cases "c = sep")
    case True
    with Cons show ?thesis by auto
  next
    case False
    obtain y ys where sp: "split_on sep s = y # ys"
      using split_on_Nil_iff [of sep s] by (cases "split_on sep s") auto
    with Cons.prems False have "xs = c # y \<or> xs \<in> set ys" by simp
    then show ?thesis
    proof
      assume "xs = c # y"
      moreover have "set y \<subseteq> set s" using Cons.IH [of y] sp by simp
      ultimately show ?thesis by auto
    next
      assume "xs \<in> set ys"
      then have "set xs \<subseteq> set s" using Cons.IH [of xs] sp by simp
      then show ?thesis by auto
    qed
  qed
qed

lemma set_join: "set (join sep xs) \<subseteq> set sep \<union> \<Union> (set ` set xs)"
  by (induction sep xs rule: join.induct) auto

lemma set_env_parts: "p \<in> set (env_parts env) \<Longrightarrow> set p \<subseteq> set env"
  using set_strip set_split_on by (fastforce simp: env_parts_def)

lemma splitlines_go_line:
  "no_linebreak l \<Longrightarrow>
   splitlines_go False cur (l @ CHR 0x0A # rest) = (cur @ l) # splitlines_go False [] rest"
proof (induction l arbitrary: cur)
  case Nil
  then show ?case by (simp add: is_linebreak_def)
next
  case (Cons c l)
  then have "\<not> is_linebreak c" and "no_linebreak l"
    by (simp_all add: no_linebreak_def)
  moreover from \<open>\<not> is_linebreak c\<close> have "c \<noteq> CHR 0x0A"
    by (auto simp: is_linebreak_def)
  ultimately show ?case
    using Cons.IH [of "cur @ [c]"] by simp
qed

lemma splitlines_unlines:
  "\<forall>l\<in>set ls. no_linebreak l \<Longrightarrow> splitlines (concat (map (\<lambda>l. l @ ''\<newline>'') ls)) = ls"
proof (induction ls)
  case Nil
  then show ?case by (simp add: splitlines_def)
next
  case (Cons l ls)
  then have "splitlines_go False [] (l @ CHR 0x0A # concat (map (\<lambda>l. l @ ''\<newline>'') ls))
      = l # splitlines_go False [] (concat (map (\<lambda>l. l @ ''\<newline>'') ls))"
    using splitlines_go_line [of l "[]"] by simp
  with Cons show ?case
    by (simp add: splitlines_def)
qed

lemma split_go_space:
  "is_space c \<Longrightarrow> split_go cur (a @ c # b) = split_go cur a @ split_go [] b"
  by (induction a arbitrary: cur) auto

lemma split_ws_space: "split_ws (a @ '' '' @ b) = split_ws a @ split_ws b"
  using split_go_space [of "CHR '' ''" "[]" a b] by (simp add: split_ws_def is_space_def)

subsection \<open>Scanning the serialized lines\<close>

lemma opt_line_optf: "opt_line (k @ ''='') v = map line_of (optf k v)"
  by (simp add: opt_line_def optf_def line_of_def)

lemma to_lines_fields: "to_lines e = ''[Desktop Entry]'' # map line_of (fields e)"
proof -
  have "map line_of (fields e) =
     [''Type='' @ entry_type e, ''Name='' @ name e]
     @ opt_line (''Comment'' @ ''='') (comment e)
     @ opt_line (''Icon'' @ ''='') (icon e)
     @ opt_line (''Exec'' @ ''='') (if exec e = [] then [] else exec_value e)
     @ opt_line (''Path'' @ ''='') (path e)
     @ [''Terminal='' @ bool_str (terminal e)]
     @ opt_line (''Categories'' @ ''='') (categories e)
     @ opt_line (''Keywords'' @ ''='') (keywords' e)
     @ opt_line (''URL'' @ ''='') (url e)
     @ opt_line (''MimeType'' @ ''='') (mime_type e)
     @ opt_line (''StartupWMClass'' @ ''='') (startup_wm_class e)
     @ [''Hidden='' @ bool_str (hidden e)]
     @ opt_line (''X-Env-Vars'' @ ''='') (env_vars e)"
    unfolding fields_def opt_line_optf by (simp add: line_of_def)
  then show ?thesis
    unfolding to_lines_eq by simp
qed

lemma scan_header: "scan_line (b, d) ''[Desktop Entry]'' = (True, d)"
  by (simp add: scan_line_def str_defs)

lemma takeWhile_until: "x \<notin> set k \<Longrightarrow> takeWhile (\<lambda>c. c \<noteq> x) (k @ x # v) = k"
  by (induction k) auto

lemma dropWhile_until: "x \<notin> set k \<Longrightarrow> dropWhile (\<lambda>c. c \<noteq> x) (k @ x # v) = x # v"
  by (induction k) auto

lemma scan_key_value:
  assumes "good_key k" and "strip v = v"
  shows "scan_line (True, d) (k @ CHR ''='' # v) = (True, d(k \<mapsto> v))"
proof -
  from assms(1) have k: "k \<noteq> []" "\<not> is_space (hd k)" "hd k \<noteq> CHR ''#''" "hd k \<noteq> CHR ''[''"
    "CHR ''='' \<notin> set k" "strip k = k"
    by (auto simp: good_key_def strip_id_iff)
  have "\<not> is_space (last (k @ CHR ''='' # v))"
    using assms(2) by (cases "v = []") (auto simp: strip_id_iff is_space_def)
  with k have line: "strip (k @ CHR ''='' # v) = k @ CHR ''='' # v"
    by (simp add: strip_id_iff)
  have "\<not> startswith (k @ CHR ''='' # v) ''#''" and "\<not> startswith (k @ CHR ''='' # v) ''[''"
    using k by (cases k; simp add: startswith_def)+
  moreover have "takeWhile (\<lambda>c. c \<noteq> CHR ''='') (k @ CHR ''='' # v) = k"
    using k(5) by (rule takeWhile_until)
  moreover have "dropWhile (\<lambda>c. c \<noteq> CHR ''='') (k @ CHR ''='' # v) = CHR ''='' # v"
    using k(5) by (rule dropWhile_until)
  ultimately show ?thesis
    using k(6) assms(2) unfolding scan_line_def line by (simp add: Let_def str_partition_def)
qed

lemma foldl_scan_fields:
  "\<forall>kv\<in>set kvs. good_key (fst kv) \<and> strip (snd kv) = snd kv \<Longrightarrow>
   foldl scan_line (True, d) (map line_of kvs) = (True, foldl put d kvs)"
proof (induction kvs arbitrary: d)
  case Nil
  then show ?case by simp
next
  case (Cons kv kvs)
  then have "scan_line (True, d) (line_of kv) = (True, put d kv)"
    by (simp add: line_of_def scan_key_value put_def)
  with Cons show ?case by simp
qed

lemma opt_upd_apply: "opt_upd k v d k' = (if k' = k \<and> v \<noteq> [] then Some v else d k')"
  by (simp add: opt_upd_def)

lemma foldl_put_optf: "foldl put d (optf k v @ kvs) = foldl put (opt_upd k v d) kvs"
  by (simp add: optf_def opt_upd_def put_def)

lemma foldl_put_optf_last: "foldl put d (optf k v) = opt_upd k v d"
  by (simp add: optf_def opt_upd_def put_def)

lemma foldl_put_Cons: "foldl put d ((k, v) # kvs) = foldl put (d(k \<mapsto> v)) kvs"
  by (simp add: put_def)

lemma data_fields:
  "foldl put Map.empty (fields e) =
     opt_upd ''X-Env-Vars'' (env_vars e)
      ((opt_upd ''StartupWMClass'' (startup_wm_class e)
        (opt_upd ''MimeType'' (mime_type e)
         (opt_upd ''URL'' (url e)
          (opt_upd ''Keywords'' (keywords' e)
           (opt_upd ''Categories'' (categories e)
            ((opt_upd ''Path'' (path e)
              (opt_upd ''Exec'' (if exec e = [] then [] else exec_value e)
               (opt_upd ''Icon'' (icon e)
                (opt_upd ''Comment'' (comment e)
                 [''Type'' \<mapsto> entry_type e, ''Name'' \<mapsto> name e]))))
             (''Terminal'' \<mapsto> bool_str (terminal e))))))))
       (''Hidden'' \<mapsto> bool_str (hidden e)))"
  unfolding fields_def
  by (simp only: append_Cons append_Nil foldl_put_optf foldl_put_Cons foldl_put_optf_last)

lemma data_lookup:
  fixes e
  defines "D \<equiv> foldl put Map.empty (fields e)"
  shows "dict_get D ''Name'' ''Unnamed'' = name e"
    and "dict_get D ''Type'' ''Application'' = entry_type e"
    and "dict_get D ''Comment'' [] = comment e"
    and "dict_get D ''Icon'' [] = icon e"
    and "dict_get D ''Exec'' [] = (if exec e = [] then [] else exec_value e)"
    and "dict_get D ''Path'' [] = path e"
    and "dict_get D ''Terminal'' [] = bool_str (terminal e)"
    and "dict_get D ''Categories'' [] = categories e"
    and "dict_get D ''Keywords'' [] = keywords' e"
    and "dict_get D ''URL'' [] = url e"
    and "dict_get D ''MimeType'' [] = mime_type e"
    and "dict_get D ''StartupWMClass'' [] = startup_wm_class e"
    and "dict_get D ''Hidden'' [] = bool_str (hidden e)"
    and "dict_get D ''X-Env-Vars'' [] = env_vars e"
  unfolding D_def data_fields dict_get_def
  by (simp_all add: opt_upd_apply)

lemma good_keys:
  "good_key ''Type''" "good_key ''Name''" "good_key ''Comment''" "good_key ''Icon''"
  "good_key ''Exec''" "good_key ''Path''" "good_key ''Terminal''" "good_key ''Categories''"
  "good_key ''Keywords''" "good_key ''URL''" "good_key ''MimeType''"
  "good_key ''StartupWMClass''" "good_key ''Hidden''" "good_key ''X-Env-Vars''"
  by (simp_all add: good_key_def no_linebreak_def strip_def is_space_def is_linebreak_def)

lemma single_line_bool_str: "single_line (bool_str b)"
  by (simp add: single_line_def bool_str_def no_linebreak_def strip_def is_space_def is_linebreak_def)

lemma single_line_Nil: "single_line []"
  by (simp add: single_line_def no_linebreak_def strip_def)

lemma no_linebreak_join_env_parts:
  assumes "no_linebreak env"
  shows "no_linebreak (join '' '' (env_parts env))"
  unfolding no_linebreak_def
proof
  fix c
  assume "c \<in> set (join '' '' (env_parts env))"
  then have "c = CHR '' '' \<or> (\<exists>p\<in>set (env_parts env). c \<in> set p)"
    using set_join [of "'' ''" "env_parts env"] by auto
  then show "\<not> is_linebreak c"
  proof
    assume "c = CHR '' ''"
    then show ?thesis by (simp add: is_linebreak_def)
  next
    assume "\<exists>p\<in>set (env_parts env). c \<in> set p"
    then have "c \<in> set env"
      using set_env_parts by blast
    with assms show ?thesis by (simp add: no_linebreak_def)
  qed
qed

lemma single_line_exec_value:
  assumes "single_line (exec e)" and "single_line (env_vars e)" and "exec e \<noteq> []"
  shows "single_line (exec_value e)"
proof (cases "env_parts (env_vars e) = []")
  case True
  with assms show ?thesis by (simp add: exec_value_def)
next
  case False
  let ?v = "''env '' @ join '' '' (env_parts (env_vars e)) @ '' '' @ exec e"
  have "\<not> is_space (last (exec e))"
    using assms(1,3) by (simp add: single_line_def strip_id_iff)
  then have "\<not> is_space (hd ?v) \<and> \<not> is_space (last ?v)"
    using assms(3) by (simp add: is_space_def)
  then have "strip ?v = ?v"
    by (simp only: strip_id_iff) simp
  moreover have "no_linebreak ?v"
    using no_linebreak_join_env_parts [of "env_vars e"] assms(1,2)
    by (auto simp: no_linebreak_def single_line_def is_linebreak_def)
  ultimately show ?thesis
    using False by (simp add: exec_value_def single_line_def)
qed

lemma fields_good:
  assumes "plain_fields e"
  shows "\<forall>kv\<in>set (fields e). good_key (fst kv) \<and> single_line (snd kv)"
proof -
  have ex: "single_line (if exec e = [] then [] else exec_value e)"
    using assms by (simp add: single_line_Nil single_line_exec_value plain_fields_def)
  have opt: "\<And>k v. good_key k \<Longrightarrow> single_line v \<Longrightarrow>
      \<forall>kv\<in>set (optf k v). good_key (fst kv) \<and> single_line (snd kv)"
    by (simp add: optf_def)
  show ?thesis
    unfolding fields_def set_append ball_Un
    using assms ex by (intro conjI opt) (simp_all add: good_keys single_line_bool_str plain_fields_def)
qed

lemma no_linebreak_line_of:
  "good_key (fst kv) \<Longrightarrow> single_line (snd kv) \<Longrightarrow> no_linebreak (line_of kv)"
  by (auto simp: line_of_def good_key_def single_line_def no_linebreak_def is_linebreak_def)

lemma parse_data_to_string:
  assumes "plain_fields e"
  shows "parse_data (to_string e) = foldl put Map.empty (fields e)"
proof -
  note good = fields_good [OF assms]
  have "\<forall>l\<in>set (to_lines e). no_linebreak l"
    unfolding to_lines_fields using good no_linebreak_line_of
    by (auto simp: no_linebreak_def is_linebreak_def)
  then have "splitlines (to_string e) = to_lines e"
    unfolding to_string_unlines by (rule splitlines_unlines)
  moreover have "foldl scan_line (True, Map.empty) (map line_of (fields e))
      = (True, foldl put Map.empty (fields e))"
    using good by (intro foldl_scan_fields) (simp add: single_line_def)
  ultimately show ?thesis
    by (simp add: parse_data_def to_lines_fields scan_header)
qed

subsection \<open>The command behind the env prefix\<close>

lemma unwrap_exec_no_env: "unwrap_exec [] x = x"
  by (simp add: unwrap_exec_def)

lemma unwrap_exec_value:
  assumes "exec_survives e"
  shows "unwrap_exec (env_vars e) (if exec e = [] then [] else exec_value e) = exec e"
proof -
  consider "exec e = []" | "exec e \<noteq> []" "env_vars e = []"
    | "exec e \<noteq> []" "env_vars e \<noteq> []" "env_parts (env_vars e) = []"
    | "exec e \<noteq> []" "env_vars e \<noteq> []" "env_parts (env_vars e) \<noteq> []"
    by blast
  then show ?thesis
  proof cases
    case 1
    then show ?thesis by simp
  next
    case 2
    then show ?thesis by (simp add: unwrap_exec_no_env exec_value_def)
  next
    case 3
    with assms have "\<not> startswith (exec e) ''env ''"
      by (simp add: exec_survives_def)
    with 3 show ?thesis by (simp add: unwrap_exec_def exec_value_def)
  next
    case 4
    define J where "J = join '' '' (env_parts (env_vars e))"
    define A where "A = split_ws J"
    define B where "B = split_ws (exec e)"
    from 4 assms have A: "\<forall>t\<in>set A. CHR ''='' \<in> set t"
      and B: "join '' '' B = exec e" and hd: "CHR ''='' \<notin> set (hd B)"
      by (simp_all add: exec_survives_def A_def B_def J_def)
    from B 4(1) have ne: "B \<noteq> []" by auto
    have v: "exec_value e = ''env '' @ J @ '' '' @ exec e"
      using 4 by (simp add: exec_value_def J_def)
    have sw: "startswith (exec_value e) ''env ''"
      unfolding v by (simp add: startswith_def)
    have "drop 4 (exec_value e) = J @ '' '' @ exec e"
      unfolding v by simp
    then have parts: "split_ws (drop 4 (exec_value e)) = A @ B"
      by (simp only: split_ws_space A_def B_def)
    have "\<exists>t\<in>set (A @ B). CHR ''='' \<notin> set t"
      using ne hd by (cases B) auto
    then have "cmd_start (A @ B) 0 = length (takeWhile (\<lambda>t. CHR ''='' \<in> set t) (A @ B))"
      using cmd_start_some [of "A @ B" 0] by simp
    also have "takeWhile (\<lambda>t. CHR ''='' \<in> set t) (A @ B) = A"
      using A ne hd by (cases B) (simp_all add: takeWhile_append2)
    finally have "drop (cmd_start (A @ B) 0) (A @ B) = B"
      by simp
    then have "unwrap_exec (env_vars e) (exec_value e) = join '' '' B"
      using 4(2) sw by (simp add: unwrap_exec_def parts Let_def)
    with B 4(1) show ?thesis by simp
  qed
qed

lemma lower_bool_str: "(lower (bool_str b) = ''true'') = b"
  by (cases b) (simp_all add: bool_str_def lower_def lower_char_def)

lemma to_string_file_path: "to_string (e\<lparr>file_path := fp\<rparr>) = to_string e"
  by (simp add: to_string_def to_lines_eq exec_value_def)

lemma from_string_to_string:
  assumes "plain_fields e" and "exec_survives e"
  shows "from_string (to_string e) fp = e\<lparr>file_path := fp\<rparr>"
  unfolding from_string_def Let_def parse_data_to_string [OF assms(1)] data_lookup
    unwrap_exec_value [OF assms(2)] lower_bool_str
  by (cases e) simp

text \<open>
  Claim C1, as amended. For every entry whose text fields have no leading or trailing
  white space and no line-break character, and whose command survives the env prefix
  (the command or \<open>env_vars\<close> is empty; or \<open>env_vars\<close> has no non-blank part and the
  command does not begin with \<open>env \<close>; or every token of the \<open>env_vars\<close> parts contains
  an \<open>=\<close>, the command is tokens separated by single spaces, and its first token
  contains no \<open>=\<close>), serializing, parsing and serializing again gives the text of the
  first serialization. (Parsing the serialized text restores every field.)
\<close>

theorem serialize_parse_serialize:
  assumes "plain_fields e" and "exec_survives e"
  shows "to_string (from_string (to_string e) fp) = to_string e"
  using assms by (simp add: from_string_to_string to_string_file_path)

lemma plain_fields_entry_env: "plain_fields entry_env"
  by (simp add: plain_fields_def single_line_def no_linebreak_def entry_env_def strip_def
      is_space_def is_linebreak_def)

lemma exec_survives_entry_env: "exec_survives entry_env"
  by (simp add: exec_survives_def entry_env_def env_parts_example split_ws_def is_space_def)

theorem serialize_parse_serialize_witness:
  "plain_fields entry_env \<and> exec_survives entry_env
   \<and> to_string (from_string (to_string entry_env) None) = to_string entry_env"
  using serialize_parse_serialize [OF plain_fields_entry_env exec_survives_entry_env, of None]
    plain_fields_entry_env exec_survives_entry_env
  by simp

text \<open>
  An entry with environment variables whose command has two spaces between its
  tokens: the parser joins the tokens with one space, and the second serialization
  differs from the first.
\<close>

theorem serialize_parse_serialize_differs:
  "to_string (from_string (to_string entry_double_space) None) \<noteq> to_string entry_double_space"
  by (simp add: entry_double_space_def codec_defs str_defs)

end
